theory Spec2Isabelle
  imports Main "HOL-Library.Word"
begin

unbundle bit_operations_syntax

chapter \<open>The tensor core of mllm\<close>

text \<open>
  A shallow embedding of \<open>src/Tensor.hpp\<close> and \<open>src/memory/SystemMemoryManager.cpp\<close>:
  shapes and layout tags, the offset function, reshaping, tag transitions, ownership of
  the buffer, binding a child tensor to a master, routing an index into an aggregate, and
  the aligned allocator. The definitions come first, in the order of the sources; the
  properties, numbered C1 to C10, follow.
\<close>

section \<open>Faults and checked machine arithmetic\<close>

text \<open>
  The tensor core is C++: a failed \<open>assert\<close>, an out-of-range \<open>operator[]\<close> on a
  vector, a signed overflow of \<open>int\<close>, a division by zero, a null dereference and an
  access outside a block of the heap end the defined behaviour of a call. Each of them is
  a value of \<open>fault\<close>, and every operation that can meet one returns \<open>fault + 'a\<close> with
  \<open>Inl\<close> for the fault.
\<close>

datatype fault =
    AssertFailed
  | OutOfBounds
  | Overflow
  | DivByZero
  | NullDeref
  | IteratorInvalidated
  | InvalidFree
  | OutOfBlock
  | Unspecified

definition andThen :: "fault + 'a \<Rightarrow> ('a \<Rightarrow> fault + 'b) \<Rightarrow> fault + 'b" where
  "andThen m f = (case m of Inl e \<Rightarrow> Inl e | Inr x \<Rightarrow> f x)"

definition INT_MAX :: int where
  "INT_MAX = 2147483647"

definition INT_MIN :: int where
  "INT_MIN = - 2147483648"

text \<open>A value of C++ type \<open>int\<close> (32 bits, two's complement).\<close>

definition is_int :: "int \<Rightarrow> bool" where
  "is_int x \<longleftrightarrow> INT_MIN \<le> x \<and> x \<le> INT_MAX"

definition chk :: "int \<Rightarrow> fault + int" where
  "chk x = (if is_int x then Inr x else Inl Overflow)"

definition add_int :: "int \<Rightarrow> int \<Rightarrow> fault + int" where
  "add_int a b = chk (a + b)"

definition sub_int :: "int \<Rightarrow> int \<Rightarrow> fault + int" where
  "sub_int a b = chk (a - b)"

definition mul_int :: "int \<Rightarrow> int \<Rightarrow> fault + int" where
  "mul_int a b = chk (a * b)"

text \<open>C++ \<open>/\<close> and \<open>%\<close> on \<open>int\<close> truncate towards zero.\<close>

definition quot :: "int \<Rightarrow> int \<Rightarrow> int" where
  "quot a b = sgn a * sgn b * (\<bar>a\<bar> div \<bar>b\<bar>)"

definition div_int :: "int \<Rightarrow> int \<Rightarrow> fault + int" where
  "div_int a b =
     (if b = 0 then Inl DivByZero
      else if a = INT_MIN \<and> b = - 1 then Inl Overflow
      else Inr (quot a b))"

definition mod_int :: "int \<Rightarrow> int \<Rightarrow> fault + int" where
  "mod_int a b =
     (if b = 0 then Inl DivByZero
      else if a = INT_MIN \<and> b = - 1 then Inl Overflow
      else Inr (a - b * quot a b))"

text \<open>\<open>std::vector<int>::operator[]\<close>: defined only inside the vector.\<close>

definition at :: "int list \<Rightarrow> int \<Rightarrow> fault + int" where
  "at xs i = (if 0 \<le> i \<and> i < int (length xs) then Inr (xs ! nat i) else Inl OutOfBounds)"

section \<open>The data model of \<open>Tensor.hpp\<close>\<close>

text \<open>
  Modelled from the spec: the enumerations \<open>ChlType\<close>, \<open>Chl\<close> and \<open>DataType\<close> are
  declared in a header that is not part of the sources at hand. The layout tags are the
  five of the spec's table, the axis selectors are the ones that \<open>Tensor.hpp\<close> names
  (with its spelling \<open>CHANNLE\<close>), the element kinds are the ones its comments name.
\<close>

datatype ChlType = BSHD | BHDS | SBHD | BCTHW | BTHWC

datatype Chl =
    BATCH | HEAD | SEQUENCE | DIMENSION
  | CHANNLE | TIME | HEIGHT | WIDTH | THW
  | HD | D_HD

datatype DataType = MLLM_TYPE_F32 | MLLM_TYPE_F16 | MLLM_TYPE_Q4_K

text \<open>Addresses are 64-bit; the null pointer is 0.\<close>

type_synonym ptr = "64 word"

definition nullptr :: ptr where
  "nullptr = 0"

record Tensor =
  dtype_' :: DataType
  ctype_' :: ChlType
  host_ptr_' :: ptr
  shape_' :: "int list"
  capacity_' :: int
  count_' :: int
  allocated_' :: int
  transed_' :: bool
  shape_offset_' :: "int list"
  shape_master_' :: "int list"
  master_tensor_' :: ptr
  child_tensors_' :: "ptr list"
  undiffusion_' :: bool
  aggregated_' :: bool
  aggregated_tensors_' :: "ptr list"
  aggregated_dim_' :: Chl
  aggregated_dims_' :: "int list"

text \<open>Tensor objects live in a store, addressed by pointers.\<close>

type_synonym store = "ptr \<Rightarrow> Tensor option"

definition deref :: "store \<Rightarrow> ptr \<Rightarrow> fault + Tensor" where
  "deref st p = (case st p of None \<Rightarrow> Inl NullDeref | Some t \<Rightarrow> Inr t)"

section \<open>Shape accessors\<close>

definition numAxes :: "Tensor \<Rightarrow> int" where
  "numAxes t = int (length (shape_' t))"

definition canonicalAxisIndex :: "Tensor \<Rightarrow> int \<Rightarrow> int" where
  "canonicalAxisIndex t axis_index =
     (if axis_index < 0 then axis_index + numAxes t else axis_index)"

definition shape :: "Tensor \<Rightarrow> int \<Rightarrow> fault + int" where
  "shape t index = at (shape_' t) (canonicalAxisIndex t index)"

definition legacyShape :: "Tensor \<Rightarrow> int \<Rightarrow> fault + int" where
  "legacyShape t index =
     (if index \<ge> numAxes t \<or> index < - numAxes t then Inr 1 else shape t index)"

definition batch :: "Tensor \<Rightarrow> fault + int" where
  "batch t = (if ctype_' t = SBHD then legacyShape t 1 else legacyShape t 0)"

definition head :: "Tensor \<Rightarrow> fault + int" where
  "head t =
     (case ctype_' t of
        BSHD \<Rightarrow> legacyShape t 2
      | BHDS \<Rightarrow> legacyShape t 1
      | SBHD \<Rightarrow> legacyShape t 2
      | _ \<Rightarrow> Inr (- 1))"

definition sequence :: "Tensor \<Rightarrow> fault + int" where
  "sequence t =
     (case ctype_' t of
        BSHD \<Rightarrow> legacyShape t 1
      | BHDS \<Rightarrow> legacyShape t 3
      | SBHD \<Rightarrow> legacyShape t 0
      | _ \<Rightarrow> Inr (- 1))"

definition dimension :: "Tensor \<Rightarrow> fault + int" where
  "dimension t =
     (case ctype_' t of
        BSHD \<Rightarrow> legacyShape t 3
      | BHDS \<Rightarrow> legacyShape t 2
      | SBHD \<Rightarrow> legacyShape t 3
      | _ \<Rightarrow> Inr (- 1))"

text \<open>The 5-axis accessors assert a 5-axis tag first.\<close>

definition channel :: "Tensor \<Rightarrow> fault + int" where
  "channel t =
     (if \<not> (ctype_' t = BCTHW \<or> ctype_' t = BTHWC) then Inl AssertFailed
      else case ctype_' t of
        BCTHW \<Rightarrow> legacyShape t 1
      | BTHWC \<Rightarrow> legacyShape t 4
      | _ \<Rightarrow> Inr (- 1))"

definition time :: "Tensor \<Rightarrow> fault + int" where
  "time t =
     (if \<not> (ctype_' t = BCTHW \<or> ctype_' t = BTHWC) then Inl AssertFailed
      else case ctype_' t of
        BCTHW \<Rightarrow> legacyShape t 2
      | BTHWC \<Rightarrow> legacyShape t 1
      | _ \<Rightarrow> Inr (- 1))"

definition height :: "Tensor \<Rightarrow> fault + int" where
  "height t =
     (if \<not> (ctype_' t = BCTHW \<or> ctype_' t = BTHWC) then Inl AssertFailed
      else case ctype_' t of
        BCTHW \<Rightarrow> legacyShape t 3
      | BTHWC \<Rightarrow> legacyShape t 2
      | _ \<Rightarrow> Inr (- 1))"

definition width :: "Tensor \<Rightarrow> fault + int" where
  "width t =
     (if \<not> (ctype_' t = BCTHW \<or> ctype_' t = BTHWC) then Inl AssertFailed
      else case ctype_' t of
        BCTHW \<Rightarrow> legacyShape t 4
      | BTHWC \<Rightarrow> legacyShape t 3
      | _ \<Rightarrow> Inr (- 1))"

section \<open>\<open>reshape\<close>\<close>

text \<open>
  The loop of the private \<open>reshape(const vector<int>&)\<close>: per axis, the two assertions
  and the product \<open>count *= shape[i]\<close>. The accumulator is the running count.
\<close>

fun reshape_count :: "int list \<Rightarrow> int \<Rightarrow> fault + int" where
  "reshape_count [] count = Inr count"
| "reshape_count (x # xs) count =
     (if \<not> x \<ge> 0 then Inl AssertFailed
      else andThen (if count \<noteq> 0
                    then andThen (div_int INT_MAX count)
                           (\<lambda>q. if x \<le> q then Inr () else Inl AssertFailed)
                    else Inr ())
             (\<lambda>_. andThen (mul_int count x) (reshape_count xs)))"

definition reshape :: "Tensor \<Rightarrow> int list \<Rightarrow> fault + (bool \<times> Tensor)" where
  "reshape t shp =
     (if \<not> length shp \<le> 32 then Inl AssertFailed
      else andThen (reshape_count shp 1)
             (\<lambda>c. let t' = t\<lparr>count_' := c, shape_' := shp\<rparr>
                  in if c > capacity_' t' then Inr (True, t'\<lparr>capacity_' := c\<rparr>)
                     else Inr (False, t')))"

text \<open>
  Modelled from the spec: the public \<open>reshape(batch, head, sequence, dimension)\<close> and
  \<open>reshape(batch, channel, time, height, width)\<close> are only declared in \<open>Tensor.hpp\<close>.
  By the spec's table of physical nesting orders they lay the logical extents out in the
  order of the current tag and hand the vector to the private \<open>reshape\<close>. The spec gives
  no 4-axis layout under a 5-axis tag and no 5-axis layout under a 4-axis tag: such a call
  is \<open>Unspecified\<close>.
\<close>

definition reshape4 :: "Tensor \<Rightarrow> int \<Rightarrow> int \<Rightarrow> int \<Rightarrow> int \<Rightarrow> fault + (bool \<times> Tensor)" where
  "reshape4 t b h s d =
     (case ctype_' t of
        BSHD \<Rightarrow> reshape t [b, s, h, d]
      | BHDS \<Rightarrow> reshape t [b, h, d, s]
      | SBHD \<Rightarrow> reshape t [s, b, h, d]
      | _ \<Rightarrow> Inl Unspecified)"

definition reshape5 ::
  "Tensor \<Rightarrow> int \<Rightarrow> int \<Rightarrow> int \<Rightarrow> int \<Rightarrow> int \<Rightarrow> fault + (bool \<times> Tensor)" where
  "reshape5 t b c tm h w =
     (case ctype_' t of
        BCTHW \<Rightarrow> reshape t [b, c, tm, h, w]
      | BTHWC \<Rightarrow> reshape t [b, tm, h, w, c]
      | _ \<Rightarrow> Inl Unspecified)"

section \<open>\<open>offset\<close>\<close>

text \<open>\<open>x * n + y\<close> on \<open>int\<close>, and the nesting \<open>((x0 * n1 + x1) * n2 + x2) * n3 + x3\<close>.\<close>

definition muladd :: "int \<Rightarrow> int \<Rightarrow> int \<Rightarrow> fault + int" where
  "muladd x n y = andThen (mul_int x n) (\<lambda>p. add_int p y)"

definition nest :: "int \<Rightarrow> int \<Rightarrow> int \<Rightarrow> int \<Rightarrow> int \<Rightarrow> int \<Rightarrow> int \<Rightarrow> fault + int" where
  "nest x0 n1 x1 n2 x2 n3 x3 =
     andThen (muladd x0 n1 x1) (\<lambda>a. andThen (muladd a n2 x2) (\<lambda>b. muladd b n3 x3))"

text \<open>\<open>(i + shape_offset_[k]) % shape_master_[k]\<close>.\<close>

definition wrap :: "int \<Rightarrow> int \<Rightarrow> int \<Rightarrow> fault + int" where
  "wrap i off base = andThen (add_int i off) (\<lambda>x. mod_int x base)"

definition offset :: "Tensor \<Rightarrow> int \<Rightarrow> int \<Rightarrow> int \<Rightarrow> int \<Rightarrow> fault + int" where
  "offset t b h s d =
     (if length (shape_offset_' t) = 4 \<and> length (shape_master_' t) = 4 then
        (let base_batch = shape_master_' t ! 0;
             base_head = shape_master_' t ! 1;
             base_sequence = shape_master_' t ! 2;
             base_dimension = shape_master_' t ! 3
         in andThen (wrap b (shape_offset_' t ! 0) base_batch) (\<lambda>b'.
            andThen (wrap h (shape_offset_' t ! 1) base_head) (\<lambda>h'.
            andThen (wrap s (shape_offset_' t ! 2) base_sequence) (\<lambda>s'.
            andThen (wrap d (shape_offset_' t ! 3) base_dimension) (\<lambda>d'.
              case ctype_' t of
                BSHD \<Rightarrow> nest b' base_sequence s' base_head h' base_dimension d'
              | BHDS \<Rightarrow> nest b' base_head h' base_dimension d' base_sequence s'
              | SBHD \<Rightarrow> nest s' base_batch b' base_head h' base_dimension d'
              | _ \<Rightarrow> Inr (- 1))))))
      else
        (case ctype_' t of
           BSHD \<Rightarrow>
             andThen (at (shape_' t) 1) (\<lambda>n1.
             andThen (at (shape_' t) 2) (\<lambda>n2.
             andThen (at (shape_' t) 3) (\<lambda>n3. nest b n1 s n2 h n3 d)))
         | BHDS \<Rightarrow>
             andThen (at (shape_' t) 1) (\<lambda>n1.
             andThen (at (shape_' t) 2) (\<lambda>n2.
             andThen (at (shape_' t) 3) (\<lambda>n3. nest b n1 h n2 d n3 s)))
         | SBHD \<Rightarrow>
             andThen (at (shape_' t) 1) (\<lambda>n1.
             andThen (at (shape_' t) 2) (\<lambda>n2.
             andThen (at (shape_' t) 3) (\<lambda>n3. nest s n1 b n2 h n3 d)))
         | _ \<Rightarrow> Inr (- 1)))"

section \<open>\<open>transShape\<close>\<close>

definition transShape :: "Tensor \<Rightarrow> Chl \<Rightarrow> Chl \<Rightarrow> bool \<Rightarrow> fault + Tensor" where
  "transShape t dim_a dim_b undiffusion =
     (if dim_a = SEQUENCE \<and> dim_b = DIMENSION \<and> ctype_' t = BSHD then
        andThen (batch t) (\<lambda>b. andThen (head t) (\<lambda>h.
        andThen (dimension t) (\<lambda>d. andThen (sequence t) (\<lambda>s.
        andThen (reshape4 (t\<lparr>ctype_' := BHDS\<rparr>) b h s d) (\<lambda>(r, t').
          Inr (t'\<lparr>transed_' := True, undiffusion_' := undiffusion\<rparr>))))))
      else if THW = dim_a \<and> dim_b = CHANNLE \<and> ctype_' t = BCTHW then
        andThen (batch t) (\<lambda>b. andThen (channel t) (\<lambda>c. andThen (time t) (\<lambda>tm.
        andThen (height t) (\<lambda>h. andThen (width t) (\<lambda>w.
        andThen (reshape5 (t\<lparr>ctype_' := BTHWC\<rparr>) b c tm h w) (\<lambda>(r, t').
          Inr (t'\<lparr>transed_' := True, undiffusion_' := undiffusion\<rparr>)))))))
      else if dim_a = BATCH \<and> dim_b = SEQUENCE \<and> ctype_' t = BSHD then
        andThen (batch t) (\<lambda>b. andThen (head t) (\<lambda>h.
        andThen (dimension t) (\<lambda>d. andThen (sequence t) (\<lambda>s.
        andThen (reshape4 (t\<lparr>ctype_' := SBHD\<rparr>) b h s d) (\<lambda>(r, t').
          Inr (t'\<lparr>transed_' := True, undiffusion_' := undiffusion\<rparr>))))))
      else Inr t)"

section \<open>\<open>free\<close> and the destructor\<close>

text \<open>
  \<open>backend_->free(p)\<close> is a call into the memory manager. The model keeps the calls made
  so far, oldest first: a buffer is released exactly when its address is appended.
\<close>

type_synonym backend = "ptr list"

definition free :: "Tensor \<Rightarrow> backend \<Rightarrow> Tensor \<times> backend" where
  "free t bn =
     (if aggregated_' t then (t, bn)
      else if host_ptr_' t \<noteq> nullptr \<and> master_tensor_' t = nullptr
      then (t\<lparr>host_ptr_' := nullptr, allocated_' := 0\<rparr>, bn @ [host_ptr_' t])
      else (t, bn))"

text \<open>The destructor \<open>~Tensor\<close>.\<close>

definition Tensor_dtor :: "Tensor \<Rightarrow> backend \<Rightarrow> Tensor \<times> backend" where
  "Tensor_dtor t bn =
     (if host_ptr_' t \<noteq> nullptr \<and> master_tensor_' t = nullptr \<and> \<not> aggregated_' t
      then (t\<lparr>host_ptr_' := nullptr\<rparr>, bn @ [host_ptr_' t])
      else (t, bn))"

section \<open>\<open>deepCopyFrom\<close>\<close>

definition setMasterTensor :: "store \<Rightarrow> ptr \<Rightarrow> ptr \<Rightarrow> fault + store" where
  "setMasterTensor st this master_tensor =
     andThen (deref st this) (\<lambda>t. Inr (st(this \<mapsto> t\<lparr>master_tensor_' := master_tensor\<rparr>)))"

definition addChildTensor :: "store \<Rightarrow> ptr \<Rightarrow> ptr \<Rightarrow> fault + store" where
  "addChildTensor st this child =
     andThen (deref st this)
       (\<lambda>t. Inr (st(this \<mapsto> t\<lparr>child_tensors_' := child_tensors_' t @ [child]\<rparr>)))"

text \<open>
  The body of \<open>deepCopyFrom\<close> is modelled block by block, each block a function on the
  store. First the reconciliation of the layout tags (the \<open>if\<close> after
  \<open>setMasterTensor\<close>): its condition short-circuits, so the master is only read when
  the tag of \<open>this\<close> is a 4-axis one.
\<close>

definition deepCopyFrom_tags :: "store \<Rightarrow> ptr \<Rightarrow> fault + store" where
  "deepCopyFrom_tags st this =
     andThen (deref st this) (\<lambda>c.
       if ctype_' c \<noteq> BCTHW \<and> ctype_' c \<noteq> BTHWC then
         andThen (deref st (master_tensor_' c)) (\<lambda>m.
           if ctype_' c \<noteq> ctype_' m \<and> undiffusion_' c = False then
             if transed_' c then
               andThen (batch m) (\<lambda>b. andThen (head m) (\<lambda>h.
               andThen (dimension m) (\<lambda>d. andThen (sequence m) (\<lambda>s.
               andThen (reshape4 (m\<lparr>ctype_' := ctype_' c\<rparr>) b h s d) (\<lambda>(r, m').
                 Inr (st(master_tensor_' c \<mapsto> m')))))))
             else
               andThen (batch c) (\<lambda>b. andThen (head c) (\<lambda>h.
               andThen (dimension c) (\<lambda>d. andThen (sequence c) (\<lambda>s.
               andThen (reshape4 (c\<lparr>ctype_' := ctype_' m\<rparr>) b h s d) (\<lambda>(r, c').
                 Inr (st(this \<mapsto> c')))))))
           else Inr st)
       else Inr st)"

text \<open>The assignments from \<open>host_ptr_ = source->hostPtr<void>()\<close> to \<open>dtype_ = source->dtype_\<close>.\<close>

definition deepCopyFrom_fields :: "store \<Rightarrow> ptr \<Rightarrow> ptr \<Rightarrow> bool \<Rightarrow> fault + store" where
  "deepCopyFrom_fields st this source copyshape =
     andThen (deref st source) (\<lambda>m.
     andThen (deref st this) (\<lambda>c.
       Inr (st(this \<mapsto> c\<lparr>host_ptr_' := host_ptr_' m,
                           capacity_' := capacity_' m,
                           count_' := count_' m,
                           shape_' := (if copyshape then shape_' m else shape_' c),
                           allocated_' := allocated_' m,
                           dtype_' := dtype_' m\<rparr>))))"

text \<open>The block \<open>if (!shape_offset.empty())\<close> that records the window.\<close>

definition deepCopyFrom_window ::
  "store \<Rightarrow> ptr \<Rightarrow> ptr \<Rightarrow> int list \<Rightarrow> int \<Rightarrow> fault + store" where
  "deepCopyFrom_window st this source shape_offset head_rep =
     (if shape_offset \<noteq> [] then
        andThen (deref st this) (\<lambda>c0.
        let st1 = st(this \<mapsto> c0\<lparr>shape_offset_' := shape_offset\<rparr>) in
        andThen (deref st1 source) (\<lambda>m.
        andThen (batch m) (\<lambda>mb. andThen (head m) (\<lambda>mh.
        andThen (sequence m) (\<lambda>ms. andThen (dimension m) (\<lambda>md.
        andThen (deref st1 this) (\<lambda>c1.
        let c = c1\<lparr>shape_master_' := [mb, mh, ms, md]\<rparr> in
        andThen (head c) (\<lambda>ch.
          if mh \<noteq> ch then
            if ch = 1 \<and> head_rep = 1 then
              andThen (mul_int md mh) (\<lambda>p. andThen (div_int p ch) (\<lambda>q.
                Inr (st1(this \<mapsto> c\<lparr>shape_master_' := [mb, ch, ms, q]\<rparr>))))
            else if ch = 1 \<and> head_rep > 1 then
              andThen (mul_int md mh) (\<lambda>p. andThen (div_int p head_rep) (\<lambda>q.
                Inr (st1(this \<mapsto> c\<lparr>shape_master_' := [mb, ch, ms, q]\<rparr>))))
            else Inr (st1(this \<mapsto> c))
          else Inr (st1(this \<mapsto> c))))))))))
      else Inr st)"

text \<open>
  The call from \<open>setMasterTensor(source)\<close> to the end of the reconciliation of the tags
  (lines 563 to 580), and the call up to the loop over the children (lines 560 to 600).
\<close>

definition deepCopyFrom_reconciled :: "store \<Rightarrow> ptr \<Rightarrow> ptr \<Rightarrow> fault + store" where
  "deepCopyFrom_reconciled st this source =
     andThen (setMasterTensor st this source) (\<lambda>st1. deepCopyFrom_tags st1 this)"

definition deepCopyFrom_bound ::
  "store \<Rightarrow> ptr \<Rightarrow> ptr \<Rightarrow> bool \<Rightarrow> int list \<Rightarrow> int \<Rightarrow> fault + store" where
  "deepCopyFrom_bound st this source copyshape shape_offset head_rep =
     (let copyshape' = (if shape_offset \<noteq> [] then False else copyshape) in
      andThen (deepCopyFrom_reconciled st this source) (\<lambda>st2.
      andThen (deepCopyFrom_fields st2 this source copyshape') (\<lambda>st3.
      deepCopyFrom_window st3 this source shape_offset head_rep)))"

text \<open>
  The loop over \<open>child_tensors_\<close> erases from the vector that its range-\<open>for\<close> is
  iterating. The range-\<open>for\<close> takes \<open>begin()\<close> and \<open>end()\<close> once, before the first pass;
  an iterator of a \<open>vector<Tensor *>\<close> is a pointer into the buffer of the vector, and
  \<open>erase\<close> up to the end of a vector neither moves the buffer nor overwrites the slots it
  gives up. So the loop visits the slots \<open>0, \<dots>, n - 1\<close> of the buffer, \<open>n\<close> the number of
  children when it starts, and finds in a slot what the passes before have left there.
  The model keeps the buffer \<open>buf\<close> of the \<open>n\<close> slots and the size \<open>sz\<close> of the vector; the
  elements of the vector are \<open>take sz buf\<close>.

  \<open>std::remove(first, last, value)\<close> takes \<open>value\<close> by reference, and the loop passes the
  slot \<open>i\<close> it is visiting: the value compared with is read from the buffer at each
  comparison. It looks for the first element equal to the value; when there is one, it
  moves every later element that differs from the value down to the next free slot.
  \<open>erase\<close> then makes the result of \<open>std::remove\<close> the end of the vector.
\<close>

definition std_find :: "ptr list \<Rightarrow> nat \<Rightarrow> nat \<Rightarrow> nat" where
  "std_find buf sz i =
     (case filter (\<lambda>j. buf ! j = buf ! i) [0..<sz] of [] \<Rightarrow> sz | j # _ \<Rightarrow> j)"

definition remove_step :: "nat \<Rightarrow> nat \<Rightarrow> ptr list \<times> nat \<Rightarrow> ptr list \<times> nat" where
  "remove_step i f =
     (\<lambda>(buf, result). if buf ! f \<noteq> buf ! i then (buf[result := buf ! f], Suc result)
                       else (buf, result))"

definition std_remove :: "ptr list \<Rightarrow> nat \<Rightarrow> nat \<Rightarrow> ptr list \<times> nat" where
  "std_remove buf sz i =
     (let j = std_find buf sz i
      in if j = sz then (buf, sz) else fold (remove_step i) [Suc j..<sz] (buf, j))"

text \<open>
  The loop, with \<open>k\<close> passes still to make, at slot \<open>i\<close>; \<open>call\<close> is the recursive
  \<open>child_tensor->deepCopyFrom(source, false, shape_offset, head_rep)\<close> (both branches of
  the \<open>if\<close> in the body pass the \<open>shape_offset\<close> of the caller). A call that does not
  return leaves the loop without a result (\<open>None\<close>).

  The buffer of the vector is local to the loop in the model. A nested call that changes
  the very vector the loop is iterating (the tensor is its own master or one of its own
  descendants) may move the buffer with its \<open>push_back\<close>, which leaves the loop with
  dangling iterators; the model reports such a change as \<open>IteratorInvalidated\<close>.
\<close>

fun children_loop ::
  "(store \<Rightarrow> ptr \<Rightarrow> (fault + store) option) \<Rightarrow> ptr \<Rightarrow> nat \<Rightarrow> ptr list \<Rightarrow> nat \<Rightarrow> nat \<Rightarrow> store
     \<Rightarrow> (fault + store) option" where
  "children_loop call this 0 buf sz i st = Some (Inr st)"
| "children_loop call this (Suc k) buf sz i st =
     (case call st (buf ! i) of
        None \<Rightarrow> None
      | Some (Inl e) \<Rightarrow> Some (Inl e)
      | Some (Inr st1) \<Rightarrow>
          (case st1 this of
             None \<Rightarrow> Some (Inl NullDeref)
           | Some t \<Rightarrow>
               if child_tensors_' t \<noteq> take sz buf then Some (Inl IteratorInvalidated)
               else
                 (case std_remove buf sz i of
                    (buf', sz') \<Rightarrow>
                      children_loop call this k buf' sz' (Suc i)
                        (st1(this \<mapsto> t\<lparr>child_tensors_' := take sz' buf'\<rparr>)))))"

text \<open>
  \<open>deepCopyFrom\<close> calls itself on the children, and they on theirs: the recursion ends
  when the child lists do, which a store with a cycle of children does not grant. The
  first argument bounds the depth of the calls; \<open>None\<close> says that the bound was reached
  before the call returned.
\<close>

fun deepCopyFrom ::
  "nat \<Rightarrow> store \<Rightarrow> ptr \<Rightarrow> ptr \<Rightarrow> bool \<Rightarrow> int list \<Rightarrow> int \<Rightarrow> (fault + store) option" where
  "deepCopyFrom 0 st this source copyshape shape_offset head_rep = None"
| "deepCopyFrom (Suc depth) st this source copyshape shape_offset head_rep =
     (case deepCopyFrom_bound st this source copyshape shape_offset head_rep of
        Inl e \<Rightarrow> Some (Inl e)
      | Inr st4 \<Rightarrow>
          (case st4 this of
             None \<Rightarrow> Some (Inl NullDeref)
           | Some c \<Rightarrow>
               (case children_loop
                       (\<lambda>st' child_tensor.
                           deepCopyFrom depth st' child_tensor source False shape_offset head_rep)
                       this (length (child_tensors_' c)) (child_tensors_' c)
                       (length (child_tensors_' c)) 0 st4 of
                  None \<Rightarrow> None
                | Some (Inl e) \<Rightarrow> Some (Inl e)
                | Some (Inr st5) \<Rightarrow> Some (addChildTensor st5 source this))))"

text \<open>
  A set of tensors is closed under children in a store when it holds the children of each
  of its members.
\<close>

definition closed_under_children :: "ptr set \<Rightarrow> store \<Rightarrow> bool" where
  "closed_under_children R st \<longleftrightarrow>
     (\<forall>q\<in>R. \<forall>t. st q = Some t \<longrightarrow> set (child_tensors_' t) \<subseteq> R)"

section \<open>\<open>checkDim\<close>\<close>

text \<open>
  The search loop of the three simple modes, started at slot \<open>a\<close>: the first slot whose
  entry exceeds \<open>x\<close>, or the initial \<open>tensor_id = -1\<close> when there is none.
\<close>

fun first_slot :: "int list \<Rightarrow> int \<Rightarrow> int \<Rightarrow> int" where
  "first_slot [] x a = - 1"
| "first_slot (y # ys) x a = (if x < y then a else first_slot ys x (a + 1))"

text \<open>The statement after the loop, \<open>x = x - aggregated_dims_[tensor_id - 1]\<close>.\<close>

definition local_index :: "int list \<Rightarrow> int \<Rightarrow> int \<Rightarrow> fault + int" where
  "local_index dims x tensor_id =
     andThen (sub_int tensor_id 1) (\<lambda>i. andThen (at dims i) (\<lambda>prev. sub_int x prev))"

text \<open>\<open>aggregated_tensors_[0]\<close>, dereferenced.\<close>

definition first_tensor :: "store \<Rightarrow> Tensor \<Rightarrow> fault + Tensor" where
  "first_tensor st t =
     (case aggregated_tensors_' t of [] \<Rightarrow> Inl OutOfBounds | p # _ \<Rightarrow> deref st p)"

text \<open>
  \<open>checkDim\<close> takes its four indices by reference: the model returns the tensor id with
  the four indices as they are after the call.
\<close>

definition checkDim ::
  "store \<Rightarrow> Tensor \<Rightarrow> int \<Rightarrow> int \<Rightarrow> int \<Rightarrow> int \<Rightarrow> fault + (int \<times> int \<times> int \<times> int \<times> int)" where
  "checkDim st t b h s d =
     (if \<not> aggregated_' t then Inr (- 1, b, h, s, d)
      else case aggregated_dim_' t of
        HEAD \<Rightarrow>
          (let tensor_id = first_slot (aggregated_dims_' t) h 0
           in andThen (local_index (aggregated_dims_' t) h tensor_id)
                (\<lambda>h'. Inr (tensor_id, b, h', s, d)))
      | SEQUENCE \<Rightarrow>
          (let tensor_id = first_slot (aggregated_dims_' t) s 0
           in andThen (local_index (aggregated_dims_' t) s tensor_id)
                (\<lambda>s'. Inr (tensor_id, b, h, s', d)))
      | DIMENSION \<Rightarrow>
          (let tensor_id = first_slot (aggregated_dims_' t) d 0
           in andThen (local_index (aggregated_dims_' t) d tensor_id)
                (\<lambda>d'. Inr (tensor_id, b, h, s, d')))
      | D_HD \<Rightarrow>
          andThen (first_tensor st t) (\<lambda>t0. andThen (dimension t0) (\<lambda>dim_size.
          let aggregated_size = int (length (aggregated_tensors_' t)) in
          andThen (mul_int dim_size aggregated_size) (\<lambda>m.
          andThen (div_int d m) (\<lambda>h'. andThen (mod_int d m) (\<lambda>d_m.
          andThen (div_int d_m dim_size) (\<lambda>tensor_id.
          andThen (mod_int d_m dim_size) (\<lambda>d'.
            Inr (tensor_id, b, h', s, d'))))))))
      | HD \<Rightarrow>
          andThen (first_tensor st t) (\<lambda>t0. andThen (dimension t0) (\<lambda>dim_size.
          andThen (head t0) (\<lambda>head_size.
          andThen (mul_int dim_size head_size) (\<lambda>m.
          andThen (div_int d m) (\<lambda>tensor_id.
          andThen (mul_int tensor_id m) (\<lambda>p. andThen (sub_int d p) (\<lambda>r.
          andThen (div_int r dim_size) (\<lambda>h'. andThen (mod_int r dim_size) (\<lambda>d'.
            Inr (tensor_id, b, h', s, d'))))))))))
      | _ \<Rightarrow> Inr (- 1, b, h, s, d))"

section \<open>\<open>SystemMemoryManager\<close>\<close>

text \<open>
  The C heap as the memory manager sees it: the blocks that \<open>malloc\<close> has handed out and
  that are not yet freed, each with its address and the size that was asked for, and the
  pointer-sized words stored in memory. \<open>size_t\<close> is a 64-bit word and \<open>sizeof(void*)\<close>
  is 8.
\<close>

record heap =
  blocks :: "(ptr \<times> 64 word) list"
  mem :: "ptr \<Rightarrow> ptr"

definition sizeof_ptr :: "64 word" where
  "sizeof_ptr = 8"

text \<open>
  A pointer-sized word at address \<open>a\<close> lies inside a block when its 8 bytes are bytes of
  the block. The comparison is made on the addresses as numbers, so that neither a block
  size that wrapped around nor an address that wrapped around passes it.
\<close>

definition inside :: "ptr \<times> 64 word \<Rightarrow> ptr \<Rightarrow> bool" where
  "inside blk a \<longleftrightarrow>
     unat (fst blk) \<le> unat a \<and> unat a + 8 \<le> unat (fst blk) + unat (snd blk)"

text \<open>
  \<open>malloc\<close> chooses the address: \<open>origin\<close> is what it returned for the request (null
  when it failed). The request is computed in \<open>size_t\<close> and wraps around. The store
  \<open>aligned[-1] = origin\<close> is a store through a pointer derived from \<open>origin\<close>: outside
  the block that \<open>malloc\<close> returned it is the fault \<open>OutOfBlock\<close>.
\<close>

definition SystemMemoryManager_alloc ::
  "heap \<Rightarrow> ptr \<Rightarrow> 64 word \<Rightarrow> 64 word \<Rightarrow> fault + (ptr \<times> heap)" where
  "SystemMemoryManager_alloc hp origin sz alignment =
     (if \<not> sz > 0 then Inl AssertFailed
      else
        let request = sz + sizeof_ptr + alignment - 1;
            hp1 = (if origin \<noteq> nullptr
                   then hp\<lparr>blocks := (origin, request) # blocks hp\<rparr> else hp)
        in if \<not> origin \<noteq> nullptr then Inl AssertFailed
           else
             let aligned = (origin + sizeof_ptr + alignment - 1) AND NOT (alignment - 1)
             in if \<not> inside (origin, request) (aligned - sizeof_ptr) then Inl OutOfBlock
                else Inr (aligned, hp1\<lparr>mem := (mem hp1)(aligned - sizeof_ptr := origin)\<rparr>))"

text \<open>
  \<open>::free(((void**)ptr)[-1])\<close>: the word before \<open>ptr\<close> is read, which is the fault
  \<open>OutOfBlock\<close> outside every live block, and given to the C library's \<open>free\<close>, which
  accepts null and the start of a live block.
\<close>

definition SystemMemoryManager_free :: "heap \<Rightarrow> ptr \<Rightarrow> fault + heap" where
  "SystemMemoryManager_free hp p =
     (if \<not> list_ex (\<lambda>blk. inside blk (p - sizeof_ptr)) (blocks hp) then Inl OutOfBlock
      else
        let origin = mem hp (p - sizeof_ptr)
        in if origin = nullptr then Inr hp
           else if list_ex (\<lambda>blk. fst blk = origin) (blocks hp)
           then Inr (hp\<lparr>blocks := filter (\<lambda>blk. fst blk \<noteq> origin) (blocks hp)\<rparr>)
           else Inl InvalidFree)"

section \<open>Well-shaped tensors\<close>

text \<open>
  A tensor as a 4-argument \<open>reshape\<close> with positive extents leaves it: four positive
  entries in \<open>shape_\<close>, their product within \<open>int\<close>, and a 4-axis tag.
\<close>

definition well_shaped :: "Tensor \<Rightarrow> bool" where
  "well_shaped t \<longleftrightarrow>
     length (shape_' t) = 4 \<and> (\<forall>x\<in>set (shape_' t). 1 \<le> x)
     \<and> prod_list (shape_' t) \<le> INT_MAX
     \<and> (ctype_' t = BSHD \<or> ctype_' t = BHDS \<or> ctype_' t = SBHD)"

section \<open>Example objects\<close>

text \<open>
  The default constructor \<open>Tensor()\<close> with the in-class initialisers. It leaves \<open>count_\<close>
  and \<open>aggregated_dim_\<close> indeterminate; the examples below never read them before they
  are set, and the model puts 0 and \<open>BATCH\<close> there.
\<close>

definition Tensor_ctor :: Tensor where
  "Tensor_ctor =
     \<lparr>dtype_' = MLLM_TYPE_F32, ctype_' = BSHD, host_ptr_' = nullptr, shape_' = [],
      capacity_' = 0, count_' = 0, allocated_' = 0, transed_' = False,
      shape_offset_' = [], shape_master_' = [], master_tensor_' = nullptr,
      child_tensors_' = [], undiffusion_' = False, aggregated_' = False,
      aggregated_tensors_' = [], aggregated_dim_' = BATCH, aggregated_dims_' = []\<rparr>"

text \<open>
  A store with two tensor objects, a child at address 16 and a master at address 32, and
  some children and masters to put there. All of them have the logical extents batch 1,
  head 3, dimension 4; the sequence extent is 2, or 8 for the last master.
\<close>

definition two_tensors :: "Tensor \<Rightarrow> Tensor \<Rightarrow> store" where
  "two_tensors c m = (\<lambda>_. None)(16 \<mapsto> c, 32 \<mapsto> m)"

definition bshd_child :: Tensor where
  "bshd_child = Tensor_ctor\<lparr>shape_' := [1, 2, 3, 4], count_' := 24, capacity_' := 24\<rparr>"

definition transposed_child :: Tensor where
  "transposed_child =
     Tensor_ctor\<lparr>ctype_' := BHDS, transed_' := True, shape_' := [1, 3, 4, 2],
                 count_' := 24, capacity_' := 24\<rparr>"

definition bshd_master :: Tensor where
  "bshd_master =
     Tensor_ctor\<lparr>shape_' := [1, 2, 3, 4], count_' := 24, capacity_' := 24,
                 host_ptr_' := 4096, allocated_' := 1\<rparr>"

definition bhds_master :: Tensor where
  "bhds_master =
     Tensor_ctor\<lparr>ctype_' := BHDS, shape_' := [1, 3, 4, 8], count_' := 96, capacity_' := 96,
                 host_ptr_' := 4096, allocated_' := 1\<rparr>"

text \<open>
  A store with a third object at address 48, for a child of the child, and a child that
  carries the tag \<open>BHDS\<close> without having been transposed.
\<close>

definition three_tensors :: "Tensor \<Rightarrow> Tensor \<Rightarrow> Tensor \<Rightarrow> store" where
  "three_tensors c g m = (\<lambda>_. None)(16 \<mapsto> c, 48 \<mapsto> g, 32 \<mapsto> m)"

definition bhds_child :: Tensor where
  "bhds_child =
     Tensor_ctor\<lparr>ctype_' := BHDS, shape_' := [1, 3, 4, 2], count_' := 24, capacity_' := 24\<rparr>"

text \<open>A heap with no live block.\<close>

definition empty_heap :: heap where
  "empty_heap = \<lparr>blocks = [], mem = (\<lambda>_. nullptr)\<rparr>"

section \<open>Basic facts\<close>

lemma andThen_Inr [simp]: "andThen (Inr x) f = f x"
  by (simp add: andThen_def)

lemma andThen_Inl [simp]: "andThen (Inl e) f = Inl e"
  by (simp add: andThen_def)

lemma legacyShape_outside:
  "i \<ge> numAxes t \<or> i < - numAxes t \<Longrightarrow> legacyShape t i = Inr 1"
  by (simp add: legacyShape_def)

lemma legacyShape_inside:
  "\<not> (i \<ge> numAxes t \<or> i < - numAxes t) \<Longrightarrow>
   legacyShape t i = Inr (shape_' t ! nat (if i < 0 then i + numAxes t else i))"
  by (auto simp add: legacyShape_def shape_def at_def canonicalAxisIndex_def numAxes_def)

text \<open>
  C10. \<open>legacyShape i\<close> is 1 for every index \<open>i >= numAxes()\<close> or \<open>i < -numAxes()\<close>, and
  it never reads the shape vector out of bounds. So each logical accessor returns 1 when
  the physical axis that the current tag assigns to it is beyond the rank of the tensor:
  \<open>batch\<close>, \<open>head\<close>, \<open>sequence\<close>, \<open>dimension\<close> under the 4-axis tags and \<open>channel\<close>,
  \<open>time\<close>, \<open>height\<close>, \<open>width\<close> under the 5-axis tags.
\<close>

theorem legacyShape_missing_axis:
  "(i \<ge> numAxes t \<or> i < - numAxes t \<longrightarrow> legacyShape t i = Inr 1)
   \<and> legacyShape t i \<noteq> Inl OutOfBounds
   \<and> (ctype_' t \<noteq> SBHD \<and> numAxes t \<le> 0 \<longrightarrow> batch t = Inr 1)
   \<and> (ctype_' t = SBHD \<and> numAxes t \<le> 1 \<longrightarrow> batch t = Inr 1)
   \<and> (ctype_' t = BSHD \<and> numAxes t \<le> 2 \<longrightarrow> head t = Inr 1)
   \<and> (ctype_' t = BHDS \<and> numAxes t \<le> 1 \<longrightarrow> head t = Inr 1)
   \<and> (ctype_' t = SBHD \<and> numAxes t \<le> 2 \<longrightarrow> head t = Inr 1)
   \<and> (ctype_' t = BSHD \<and> numAxes t \<le> 1 \<longrightarrow> sequence t = Inr 1)
   \<and> (ctype_' t = BHDS \<and> numAxes t \<le> 3 \<longrightarrow> sequence t = Inr 1)
   \<and> (ctype_' t = SBHD \<and> numAxes t \<le> 0 \<longrightarrow> sequence t = Inr 1)
   \<and> (ctype_' t = BSHD \<and> numAxes t \<le> 3 \<longrightarrow> dimension t = Inr 1)
   \<and> (ctype_' t = BHDS \<and> numAxes t \<le> 2 \<longrightarrow> dimension t = Inr 1)
   \<and> (ctype_' t = SBHD \<and> numAxes t \<le> 3 \<longrightarrow> dimension t = Inr 1)
   \<and> (ctype_' t = BCTHW \<and> numAxes t \<le> 1 \<longrightarrow> channel t = Inr 1)
   \<and> (ctype_' t = BTHWC \<and> numAxes t \<le> 4 \<longrightarrow> channel t = Inr 1)
   \<and> (ctype_' t = BCTHW \<and> numAxes t \<le> 2 \<longrightarrow> time t = Inr 1)
   \<and> (ctype_' t = BTHWC \<and> numAxes t \<le> 1 \<longrightarrow> time t = Inr 1)
   \<and> (ctype_' t = BCTHW \<and> numAxes t \<le> 3 \<longrightarrow> height t = Inr 1)
   \<and> (ctype_' t = BTHWC \<and> numAxes t \<le> 2 \<longrightarrow> height t = Inr 1)
   \<and> (ctype_' t = BCTHW \<and> numAxes t \<le> 4 \<longrightarrow> width t = Inr 1)
   \<and> (ctype_' t = BTHWC \<and> numAxes t \<le> 3 \<longrightarrow> width t = Inr 1)"
proof -
  have oob: "legacyShape t i \<noteq> Inl OutOfBounds"
    by (cases "i \<ge> numAxes t \<or> i < - numAxes t")
       (simp_all only: legacyShape_outside legacyShape_inside sum.simps not_False_eq_True)
  show ?thesis
    using oob
    by (simp add: batch_def head_def sequence_def dimension_def channel_def time_def
        height_def width_def legacyShape_outside)
qed

theorem legacyShape_missing_axis_witness:
  "legacyShape (Tensor_ctor\<lparr>shape_' := [3, 5]\<rparr>) 2 = Inr 1
   \<and> legacyShape (Tensor_ctor\<lparr>shape_' := [3, 5]\<rparr>) (- 1) = Inr 5
   \<and> head (Tensor_ctor\<lparr>shape_' := [3, 5]\<rparr>) = Inr 1
   \<and> dimension (Tensor_ctor\<lparr>shape_' := [3, 5]\<rparr>) = Inr 1
   \<and> sequence (Tensor_ctor\<lparr>shape_' := [3, 5]\<rparr>) = Inr 5"
  using legacyShape_missing_axis [where i = 2 and t = "Tensor_ctor\<lparr>shape_' := [3, 5]\<rparr>"]
  by (simp add: Tensor_ctor_def numAxes_def sequence_def legacyShape_def shape_def at_def
      canonicalAxisIndex_def)

section \<open>Tag transitions\<close>

text \<open>
  C4. A \<open>transShape\<close> request other than (SEQUENCE, DIMENSION) on a BSHD tensor,
  (THW, CHANNLE) on a BCTHW tensor and (BATCH, SEQUENCE) on a BSHD tensor returns without
  a fault and leaves the whole tensor as it was: tag, shape, count, capacity and the two
  flags \<open>transed_\<close> and \<open>undiffusion_\<close> included.
\<close>

theorem transShape_unsupported_noop:
  "\<not> (dim_a = SEQUENCE \<and> dim_b = DIMENSION \<and> ctype_' t = BSHD) \<Longrightarrow>
   \<not> (dim_a = THW \<and> dim_b = CHANNLE \<and> ctype_' t = BCTHW) \<Longrightarrow>
   \<not> (dim_a = BATCH \<and> dim_b = SEQUENCE \<and> ctype_' t = BSHD) \<Longrightarrow>
   transShape t dim_a dim_b undiffusion = Inr t"
  unfolding transShape_def by (simp only: if_False eq_commute [of THW dim_a])

theorem transShape_unsupported_noop_witness:
  "transShape (Tensor_ctor\<lparr>ctype_' := BHDS, shape_' := [1, 2, 4, 3]\<rparr>) SEQUENCE DIMENSION True
     = Inr (Tensor_ctor\<lparr>ctype_' := BHDS, shape_' := [1, 2, 4, 3]\<rparr>)
   \<and> transShape (Tensor_ctor\<lparr>shape_' := [1, 3, 2, 4]\<rparr>) HEAD DIMENSION True
     = Inr (Tensor_ctor\<lparr>shape_' := [1, 3, 2, 4]\<rparr>)"
  using transShape_unsupported_noop
          [where dim_a = SEQUENCE and dim_b = DIMENSION and undiffusion = True
             and t = "Tensor_ctor\<lparr>ctype_' := BHDS, shape_' := [1, 2, 4, 3]\<rparr>"]
        transShape_unsupported_noop
          [where dim_a = HEAD and dim_b = DIMENSION and undiffusion = True
             and t = "Tensor_ctor\<lparr>shape_' := [1, 3, 2, 4]\<rparr>"]
  by (simp add: Tensor_ctor_def)

section \<open>Ownership of the buffer\<close>

text \<open>
  C6. \<open>free()\<close> and the destructor hand the buffer to the backend exactly when the host
  pointer is not null, there is no master and the tensor is not aggregated; they then
  null the host pointer. For a child (master set) and for an aggregate nothing is
  released. A second \<open>free()\<close>, or the destructor after \<open>free()\<close>, releases nothing more.
\<close>

theorem free_releases_iff_owner:
  "(host_ptr_' t \<noteq> nullptr \<and> master_tensor_' t = nullptr \<and> \<not> aggregated_' t \<longrightarrow>
      free t bn = (t\<lparr>host_ptr_' := nullptr, allocated_' := 0\<rparr>, bn @ [host_ptr_' t])
      \<and> Tensor_dtor t bn = (t\<lparr>host_ptr_' := nullptr\<rparr>, bn @ [host_ptr_' t]))
   \<and> (\<not> (host_ptr_' t \<noteq> nullptr \<and> master_tensor_' t = nullptr \<and> \<not> aggregated_' t) \<longrightarrow>
      free t bn = (t, bn) \<and> Tensor_dtor t bn = (t, bn))
   \<and> (master_tensor_' t \<noteq> nullptr \<or> aggregated_' t \<longrightarrow>
      snd (free t bn) = bn \<and> snd (Tensor_dtor t bn) = bn)
   \<and> free (fst (free t bn)) (snd (free t bn)) = free t bn
   \<and> Tensor_dtor (fst (free t bn)) (snd (free t bn)) = free t bn"
  by (simp add: free_def Tensor_dtor_def)

theorem free_releases_iff_owner_witness:
  "free (Tensor_ctor\<lparr>host_ptr_' := 4096\<rparr>) [] = (Tensor_ctor, [4096])
   \<and> Tensor_dtor (Tensor_ctor\<lparr>host_ptr_' := 4096\<rparr>) [] = (Tensor_ctor, [4096])
   \<and> free Tensor_ctor [4096] = (Tensor_ctor, [4096])
   \<and> free (fst (free (Tensor_ctor\<lparr>host_ptr_' := 4096\<rparr>) []))
          (snd (free (Tensor_ctor\<lparr>host_ptr_' := 4096\<rparr>) [])) = (Tensor_ctor, [4096])
   \<and> free (Tensor_ctor\<lparr>host_ptr_' := 4096, master_tensor_' := 64\<rparr>) []
       = (Tensor_ctor\<lparr>host_ptr_' := 4096, master_tensor_' := 64\<rparr>, [])
   \<and> snd (Tensor_dtor (Tensor_ctor\<lparr>host_ptr_' := 4096, master_tensor_' := 64\<rparr>) []) = []"
  using free_releases_iff_owner [where t = "Tensor_ctor\<lparr>host_ptr_' := 4096\<rparr>" and bn = "[]"]
        free_releases_iff_owner [where t = "Tensor_ctor" and bn = "[4096]"]
        free_releases_iff_owner
          [where t = "Tensor_ctor\<lparr>host_ptr_' := 4096, master_tensor_' := 64\<rparr>" and bn = "[]"]
  by (simp add: Tensor_ctor_def nullptr_def)

section \<open>Reshaping\<close>

lemma chk_in_range [simp]: "INT_MIN \<le> x \<Longrightarrow> x \<le> INT_MAX \<Longrightarrow> chk x = Inr x"
  by (simp add: chk_def is_int_def)

lemma quot_nonneg: "0 \<le> a \<Longrightarrow> 0 < b \<Longrightarrow> quot a b = a div b"
  by (cases "a = 0") (simp_all add: quot_def)

lemma div_int_pos: "0 \<le> a \<Longrightarrow> 0 < b \<Longrightarrow> div_int a b = Inr (a div b)"
  by (simp add: div_int_def quot_nonneg)

lemma mod_int_pos: "0 \<le> a \<Longrightarrow> 0 < b \<Longrightarrow> mod_int a b = Inr (a mod b)"
  by (simp add: mod_int_def quot_nonneg minus_mult_div_eq_mod)

lemma reshape_count_product:
  "0 \<le> c \<Longrightarrow> \<forall>x\<in>set xs. 0 \<le> x \<Longrightarrow>
   \<forall>k\<le>length xs. c * prod_list (take k xs) \<le> INT_MAX \<Longrightarrow>
   reshape_count xs c = Inr (c * prod_list xs)"
proof (induction xs arbitrary: c)
  case Nil
  then show ?case by simp
next
  case (Cons x xs)
  have x0: "0 \<le> x" using Cons.prems(2) by simp
  have cx: "c * x \<le> INT_MAX" using Cons.prems(3) [rule_format, of 1] by simp
  have cx0: "0 \<le> c * x" using Cons.prems(1) x0 by simp
  have guard: "c \<noteq> 0 \<Longrightarrow> div_int INT_MAX c = Inr (INT_MAX div c) \<and> x \<le> INT_MAX div c"
  proof -
    assume "c \<noteq> 0"
    then have cpos: "0 < c" using Cons.prems(1) by simp
    have "x * c \<le> INT_MAX" using cx by (simp add: mult.commute)
    then have "x * c div c \<le> INT_MAX div c" using cpos by (rule zdiv_mono1)
    then have "x \<le> INT_MAX div c" using cpos by simp
    then show ?thesis using cpos by (simp add: div_int_pos INT_MAX_def)
  qed
  have rest: "\<forall>k\<le>length xs. c * x * prod_list (take k xs) \<le> INT_MAX"
  proof (intro allI impI)
    fix k assume "k \<le> length xs"
    then show "c * x * prod_list (take k xs) \<le> INT_MAX"
      using Cons.prems(3) [rule_format, of "Suc k"] by (simp add: mult.assoc)
  qed
  have ih: "reshape_count xs (c * x) = Inr (c * x * prod_list xs)"
    using Cons.IH [OF cx0 _ rest] Cons.prems(2) by simp
  have mul: "mul_int c x = Inr (c * x)"
    using cx cx0 by (simp add: mul_int_def INT_MIN_def)
  show ?case
    using x0 guard mul ih by (simp add: mult.assoc)
qed

lemma reshape_result:
  assumes "length shp \<le> 32" and "\<forall>x\<in>set shp. 0 \<le> x"
    and "\<forall>k\<le>length shp. prod_list (take k shp) \<le> INT_MAX"
  shows "reshape t shp =
           Inr (prod_list shp > capacity_' t,
                t\<lparr>count_' := prod_list shp, shape_' := shp,
                  capacity_' := max (capacity_' t) (prod_list shp)\<rparr>)"
proof -
  have "reshape_count shp 1 = Inr (1 * prod_list shp)"
    using assms(2,3) by (intro reshape_count_product) simp_all
  then show ?thesis
    using assms(1) by (simp add: reshape_def Let_def max_def)
qed

text \<open>Whenever \<open>reshape\<close> returns, the count is the product of the sizes and an \<open>int\<close>.\<close>

lemma reshape_count_Inr:
  "reshape_count xs c = Inr k \<Longrightarrow> is_int c \<Longrightarrow> k = c * prod_list xs \<and> is_int k"
proof (induction xs arbitrary: c)
  case Nil
  then show ?case by simp
next
  case (Cons x xs)
  from Cons.prems(1) obtain p where p: "mul_int c x = Inr p" and r: "reshape_count xs p = Inr k"
    by (auto simp add: andThen_def split: if_splits sum.splits)
  have px: "p = c * x" and "is_int p"
    using p by (auto simp add: mul_int_def chk_def split: if_splits)
  then have "k = p * prod_list xs" and "is_int k"
    using Cons.IH [OF r] by blast+
  then show ?case unfolding px by (simp add: mult.assoc)
qed

lemma reshape_invariant:
  assumes "reshape t shp = Inr (r, t')"
  shows "count_' t' = prod_list shp" and "is_int (count_' t')" and "shape_' t' = shp"
proof -
  obtain c where c: "reshape_count shp 1 = Inr c"
    and t': "t' = (if c > capacity_' t then t\<lparr>count_' := c, shape_' := shp, capacity_' := c\<rparr>
                   else t\<lparr>count_' := c, shape_' := shp\<rparr>)"
    using assms by (auto simp add: reshape_def Let_def andThen_def split: if_splits sum.splits)
  have "c = 1 * prod_list shp \<and> is_int c"
    using c by (rule reshape_count_Inr) (simp add: is_int_def INT_MIN_def INT_MAX_def)
  then have cp: "c = prod_list shp" and ci: "is_int c" by auto
  have cnt: "count_' t' = c" and shp: "shape_' t' = shp" using t' by simp_all
  show "count_' t' = prod_list shp" using cnt cp by simp
  show "is_int (count_' t')" using cnt ci by simp
  show "shape_' t' = shp" by (rule shp)
qed

text \<open>
  C5. A \<open>reshape\<close> with non-negative sizes whose running product stays within \<open>int\<close>
  sets the count to the product of the sizes, makes the capacity the maximum of its old
  value and the new count, and returns true exactly when the new count exceeds the old
  capacity; the host pointer is not touched. So a reshape to a count within the capacity,
  followed by another one within that same capacity, returns false both times and leaves
  capacity and buffer as they were. (The public overloads pass 4 or 5 sizes; the private
  one asserts at most 32.)
\<close>

theorem reshape_count_capacity:
  assumes "length shp \<le> 32" and "\<forall>x\<in>set shp. 0 \<le> x"
    and "\<forall>k\<le>length shp. prod_list (take k shp) \<le> INT_MAX"
    and "length shq \<le> 32" and "\<forall>x\<in>set shq. 0 \<le> x"
    and "\<forall>k\<le>length shq. prod_list (take k shq) \<le> INT_MAX"
  shows "\<exists>r t'. reshape t shp = Inr (r, t')
           \<and> count_' t' = prod_list shp
           \<and> shape_' t' = shp
           \<and> capacity_' t' = max (capacity_' t) (prod_list shp)
           \<and> capacity_' t \<le> capacity_' t'
           \<and> (r \<longleftrightarrow> prod_list shp > capacity_' t)
           \<and> host_ptr_' t' = host_ptr_' t
           \<and> (prod_list shp \<le> capacity_' t \<and> prod_list shq \<le> capacity_' t \<longrightarrow>
                (\<exists>t''. r = False \<and> reshape t' shq = Inr (False, t'')
                   \<and> count_' t'' = prod_list shq
                   \<and> capacity_' t'' = capacity_' t
                   \<and> host_ptr_' t'' = host_ptr_' t))"
  by (simp add: reshape_result [OF assms(1-3)] reshape_result [OF assms(4-6)] max_def)

theorem reshape_count_capacity_witness:
  "\<exists>r t'. reshape (Tensor_ctor\<lparr>capacity_' := 120, host_ptr_' := 4096\<rparr>) [1, 3, 4, 5] = Inr (r, t')
     \<and> count_' t' = 60 \<and> capacity_' t' = 120 \<and> r = False \<and> host_ptr_' t' = 4096
     \<and> (\<exists>t''. reshape t' [2, 3, 4, 5] = Inr (False, t'')
           \<and> count_' t'' = 120 \<and> capacity_' t'' = 120 \<and> host_ptr_' t'' = 4096)"
proof -
  have p1: "\<forall>k\<le>length [1, 3, 4, 5 :: int]. prod_list (take k [1, 3, 4, 5 :: int]) \<le> INT_MAX"
    by (auto simp add: INT_MAX_def numeral_eq_Suc le_Suc_eq)
  have p2: "\<forall>k\<le>length [2, 3, 4, 5 :: int]. prod_list (take k [2, 3, 4, 5 :: int]) \<le> INT_MAX"
    by (auto simp add: INT_MAX_def numeral_eq_Suc le_Suc_eq)
  show ?thesis
    using reshape_count_capacity
            [where shp = "[1, 3, 4, 5]" and shq = "[2, 3, 4, 5]"
               and t = "Tensor_ctor\<lparr>capacity_' := 120, host_ptr_' := 4096\<rparr>", OF _ _ p1 _ _ p2]
    by (auto simp add: Tensor_ctor_def)
qed

section \<open>Routing into an aggregate\<close>

text \<open>
  Whatever the table, an index that the search routes to slot 0 makes the statement after
  the loop read \<open>aggregated_dims_[-1]\<close>.
\<close>

lemma local_index_slot0: "local_index dims x 0 = Inl OutOfBounds"
  by (simp add: local_index_def sub_int_def at_def INT_MIN_def INT_MAX_def)

lemma checkDim_slot0:
  assumes "aggregated_' t" and "aggregated_dims_' t = y # ys"
  shows "aggregated_dim_' t = HEAD \<Longrightarrow> h < y \<Longrightarrow> checkDim st t b h s d = Inl OutOfBounds"
    and "aggregated_dim_' t = SEQUENCE \<Longrightarrow> s < y \<Longrightarrow> checkDim st t b h s d = Inl OutOfBounds"
    and "aggregated_dim_' t = DIMENSION \<Longrightarrow> d < y \<Longrightarrow> checkDim st t b h s d = Inl OutOfBounds"
  using assms by (simp_all add: checkDim_def local_index_slot0)

text \<open>
  The search returns the first slot whose entry exceeds the index, counted from the
  starting slot, or -1 when no entry does.
\<close>

lemma first_slot_spec:
  "(first_slot ys x a = - 1 \<and> (\<forall>y\<in>set ys. \<not> x < y))
   \<or> (\<exists>j<length ys. first_slot ys x a = a + int j \<and> x < ys ! j \<and> (\<forall>i<j. \<not> x < ys ! i))"
proof (induction ys arbitrary: a)
  case Nil
  then show ?case by simp
next
  case (Cons y ys)
  show ?case
  proof (cases "x < y")
    case True
    then have "first_slot (y # ys) x a = a + int 0 \<and> x < (y # ys) ! 0
               \<and> (\<forall>i<0. \<not> x < (y # ys) ! i)"
      by simp
    then show ?thesis by blast
  next
    case False
    from Cons.IH [of "a + 1"] show ?thesis
    proof
      assume "first_slot ys x (a + 1) = - 1 \<and> (\<forall>y\<in>set ys. \<not> x < y)"
      then show ?thesis using False by simp
    next
      assume "\<exists>j<length ys. first_slot ys x (a + 1) = a + 1 + int j \<and> x < ys ! j
                \<and> (\<forall>i<j. \<not> x < ys ! i)"
      then obtain j where j: "j < length ys" "first_slot ys x (a + 1) = a + 1 + int j"
        "x < ys ! j" "\<forall>i<j. \<not> x < ys ! i"
        by blast
      have "\<forall>i<Suc j. \<not> x < (y # ys) ! i"
        using j(4) False by (auto simp add: less_Suc_eq_0_disj)
      then have "Suc j < length (y # ys) \<and> first_slot (y # ys) x a = a + int (Suc j)
                 \<and> x < (y # ys) ! Suc j \<and> (\<forall>i<Suc j. \<not> x < (y # ys) ! i)"
        using j False by simp
      then show ?thesis by blast
    qed
  qed
qed

text \<open>
  From slot 1 on, the statement after the loop subtracts the previous entry, and
  \<open>checkDim\<close> returns the slot with the local index.
\<close>

lemma local_index_later:
  assumes "0 < k" and "k < int (length dims)" and "is_int k"
    and "is_int (x - dims ! nat (k - 1))"
  shows "local_index dims x k = Inr (x - dims ! nat (k - 1))"
proof -
  have "is_int (k - 1)" using assms(1,3) by (simp add: is_int_def INT_MIN_def)
  then have "sub_int k 1 = Inr (k - 1)" by (simp add: sub_int_def chk_def)
  moreover have "at dims (k - 1) = Inr (dims ! nat (k - 1))"
    using assms(1,2) by (simp add: at_def)
  moreover have "sub_int x (dims ! nat (k - 1)) = Inr (x - dims ! nat (k - 1))"
    using assms(4) by (simp add: sub_int_def chk_def)
  ultimately show ?thesis by (simp add: local_index_def)
qed

lemma checkDim_later_slots:
  assumes "aggregated_' t" and "0 < k" and "k < int (length (aggregated_dims_' t))"
    and "is_int k"
  shows "aggregated_dim_' t = HEAD \<Longrightarrow> first_slot (aggregated_dims_' t) h 0 = k \<Longrightarrow>
           is_int (h - aggregated_dims_' t ! nat (k - 1)) \<Longrightarrow>
           checkDim st t b h s d = Inr (k, b, h - aggregated_dims_' t ! nat (k - 1), s, d)"
    and "aggregated_dim_' t = SEQUENCE \<Longrightarrow> first_slot (aggregated_dims_' t) s 0 = k \<Longrightarrow>
           is_int (s - aggregated_dims_' t ! nat (k - 1)) \<Longrightarrow>
           checkDim st t b h s d = Inr (k, b, h, s - aggregated_dims_' t ! nat (k - 1), d)"
    and "aggregated_dim_' t = DIMENSION \<Longrightarrow> first_slot (aggregated_dims_' t) d 0 = k \<Longrightarrow>
           is_int (d - aggregated_dims_' t ! nat (k - 1)) \<Longrightarrow>
           checkDim st t b h s d = Inr (k, b, h, s, d - aggregated_dims_' t ! nat (k - 1))"
  using assms by (simp_all add: checkDim_def local_index_later)

text \<open>
  C1, at the table \<open>[2, 5, 6]\<close> along SEQUENCE. Sequence indices 2, 3, 4 go to
  constituent 1 with local indices 0, 1, 2 and index 5 goes to constituent 2 with local
  index 0. Indices 0 and 1 are routed to slot 0, and there \<open>checkDim\<close> reads the table
  at slot -1, outside the vector, where the specification takes the entry to be 0.
\<close>

theorem checkDim_table_2_5_6:
  "checkDim (\<lambda>_. None)
     (Tensor_ctor\<lparr>aggregated_' := True, aggregated_dim_' := SEQUENCE,
                 aggregated_dims_' := [2, 5, 6]\<rparr>) 0 0 0 0 = Inl OutOfBounds
   \<and> checkDim (\<lambda>_. None)
     (Tensor_ctor\<lparr>aggregated_' := True, aggregated_dim_' := SEQUENCE,
                 aggregated_dims_' := [2, 5, 6]\<rparr>) 0 0 1 0 = Inl OutOfBounds
   \<and> checkDim (\<lambda>_. None)
     (Tensor_ctor\<lparr>aggregated_' := True, aggregated_dim_' := SEQUENCE,
                 aggregated_dims_' := [2, 5, 6]\<rparr>) 0 0 2 0 = Inr (1, 0, 0, 0, 0)
   \<and> checkDim (\<lambda>_. None)
     (Tensor_ctor\<lparr>aggregated_' := True, aggregated_dim_' := SEQUENCE,
                 aggregated_dims_' := [2, 5, 6]\<rparr>) 0 0 3 0 = Inr (1, 0, 0, 1, 0)
   \<and> checkDim (\<lambda>_. None)
     (Tensor_ctor\<lparr>aggregated_' := True, aggregated_dim_' := SEQUENCE,
                 aggregated_dims_' := [2, 5, 6]\<rparr>) 0 0 4 0 = Inr (1, 0, 0, 2, 0)
   \<and> checkDim (\<lambda>_. None)
     (Tensor_ctor\<lparr>aggregated_' := True, aggregated_dim_' := SEQUENCE,
                 aggregated_dims_' := [2, 5, 6]\<rparr>) 0 0 5 0 = Inr (2, 0, 0, 0, 0)"
  by (simp add: checkDim_def Tensor_ctor_def local_index_def sub_int_def at_def
      INT_MIN_def INT_MAX_def)

section \<open>Offsets\<close>

lemma add_int_in_range:
  "INT_MIN \<le> a + b \<Longrightarrow> a + b \<le> INT_MAX \<Longrightarrow> add_int a b = Inr (a + b)"
  by (simp add: add_int_def)

lemma mul_int_in_range:
  "INT_MIN \<le> a * b \<Longrightarrow> a * b \<le> INT_MAX \<Longrightarrow> mul_int a b = Inr (a * b)"
  by (simp add: mul_int_def)

lemma wrap_nonneg:
  "0 < m \<Longrightarrow> 0 \<le> i + off \<Longrightarrow> i + off \<le> INT_MAX \<Longrightarrow> wrap i off m = Inr ((i + off) mod m)"
  by (simp add: wrap_def add_int_in_range INT_MIN_def mod_int_pos)

lemma wrap_shift:
  assumes "0 < m" and "0 \<le> i + off" and "i + m + off \<le> INT_MAX"
  shows "wrap (i + m) off m = wrap i off m"
proof -
  have "wrap (i + m) off m = Inr ((i + m + off) mod m)"
    using assms by (intro wrap_nonneg) simp_all
  moreover have "wrap i off m = Inr ((i + off) mod m)"
    using assms by (intro wrap_nonneg) simp_all
  moreover have "(i + m + off) mod m = (i + off) mod m"
  proof -
    have "i + m + off = (i + off) + m" by simp
    then show ?thesis by (simp only: mod_add_self2)
  qed
  ultimately show ?thesis by simp
qed

text \<open>
  C3, as the code has it. For a tensor with a 4-entry \<open>shape_offset_\<close> and a 4-entry
  \<open>shape_master_\<close> with positive extents, adding the master's extent to the index along
  one axis leaves \<open>offset\<close> unchanged, provided the index shifted by \<open>shape_offset_\<close> is
  not negative and the shifted index plus the extent is still an \<open>int\<close>.
\<close>

theorem offset_toroidal:
  assumes "length (shape_offset_' t) = 4" and "length (shape_master_' t) = 4"
    and "\<forall>m\<in>set (shape_master_' t). 0 < m"
  shows "(0 \<le> b + shape_offset_' t ! 0
            \<and> b + shape_master_' t ! 0 + shape_offset_' t ! 0 \<le> INT_MAX
          \<longrightarrow> offset t (b + shape_master_' t ! 0) h s d = offset t b h s d)
       \<and> (0 \<le> h + shape_offset_' t ! 1
            \<and> h + shape_master_' t ! 1 + shape_offset_' t ! 1 \<le> INT_MAX
          \<longrightarrow> offset t b (h + shape_master_' t ! 1) s d = offset t b h s d)
       \<and> (0 \<le> s + shape_offset_' t ! 2
            \<and> s + shape_master_' t ! 2 + shape_offset_' t ! 2 \<le> INT_MAX
          \<longrightarrow> offset t b h (s + shape_master_' t ! 2) d = offset t b h s d)
       \<and> (0 \<le> d + shape_offset_' t ! 3
            \<and> d + shape_master_' t ! 3 + shape_offset_' t ! 3 \<le> INT_MAX
          \<longrightarrow> offset t b h s (d + shape_master_' t ! 3) = offset t b h s d)"
proof -
  have pos: "0 < shape_master_' t ! 0" "0 < shape_master_' t ! 1"
    "0 < shape_master_' t ! 2" "0 < shape_master_' t ! 3"
    using assms(2,3) by (simp_all add: nth_mem)
  show ?thesis
    using assms(1,2) pos by (simp add: offset_def wrap_shift)
qed

theorem offset_toroidal_witness:
  "offset (Tensor_ctor\<lparr>shape_offset_' := [0, 0, 3, 0], shape_master_' := [1, 2, 5, 4]\<rparr>)
      0 1 (4 + 5) 2 = Inr 22
   \<and> offset (Tensor_ctor\<lparr>shape_offset_' := [0, 0, 3, 0], shape_master_' := [1, 2, 5, 4]\<rparr>)
      0 1 4 2 = Inr 22"
  using offset_toroidal
          [where t = "Tensor_ctor\<lparr>shape_offset_' := [0, 0, 3, 0], shape_master_' := [1, 2, 5, 4]\<rparr>"
             and b = 0 and h = 1 and s = 4 and d = 2]
  by (simp add: Tensor_ctor_def INT_MAX_def INT_MIN_def offset_def wrap_def add_int_def
      mod_int_def quot_def nest_def muladd_def mul_int_def chk_def is_int_def)

text \<open>
  C3 as stated fails for an index below \<open>- shape_offset_[axis]\<close>, because \<open>%\<close> truncates
  towards zero: with no shift and master extent 5 along the batch axis, index -1 stays -1
  while index -1 + 5 is 4. It also fails where the index plus the extent is still an
  \<open>int\<close> but the shift inside \<open>offset\<close> overflows: with shift 1 and extent 5, index
  2147483642 has offset 3 and index 2147483642 + 5 has none.
\<close>

theorem offset_toroidal_counterexample:
  "length (shape_offset_' (Tensor_ctor\<lparr>shape_offset_' := [0, 0, 0, 0],
                                       shape_master_' := [5, 1, 1, 1]\<rparr>)) = 4
   \<and> length (shape_master_' (Tensor_ctor\<lparr>shape_offset_' := [0, 0, 0, 0],
                                         shape_master_' := [5, 1, 1, 1]\<rparr>)) = 4
   \<and> ctype_' (Tensor_ctor\<lparr>shape_offset_' := [0, 0, 0, 0],
                           shape_master_' := [5, 1, 1, 1]\<rparr>) = BSHD
   \<and> offset (Tensor_ctor\<lparr>shape_offset_' := [0, 0, 0, 0], shape_master_' := [5, 1, 1, 1]\<rparr>)
        (- 1) 0 0 0 = Inr (- 1)
   \<and> offset (Tensor_ctor\<lparr>shape_offset_' := [0, 0, 0, 0], shape_master_' := [5, 1, 1, 1]\<rparr>)
        (- 1 + 5) 0 0 0 = Inr 4
   \<and> offset (Tensor_ctor\<lparr>shape_offset_' := [0, 0, 0, 0], shape_master_' := [5, 1, 1, 1]\<rparr>)
        (- 1 + 5) 0 0 0
     \<noteq> offset (Tensor_ctor\<lparr>shape_offset_' := [0, 0, 0, 0], shape_master_' := [5, 1, 1, 1]\<rparr>)
        (- 1) 0 0 0
   \<and> is_int (2147483642 + 5)
   \<and> offset (Tensor_ctor\<lparr>shape_offset_' := [1, 0, 0, 0], shape_master_' := [5, 1, 1, 1]\<rparr>)
        2147483642 0 0 0 = Inr 3
   \<and> offset (Tensor_ctor\<lparr>shape_offset_' := [1, 0, 0, 0], shape_master_' := [5, 1, 1, 1]\<rparr>)
        (2147483642 + 5) 0 0 0 = Inl Overflow"
  by (simp add: Tensor_ctor_def INT_MAX_def INT_MIN_def offset_def wrap_def add_int_def
      mod_int_def quot_def nest_def muladd_def mul_int_def chk_def is_int_def)

subsection \<open>Mixed-radix nesting\<close>

lemma radix_step_bounds:
  fixes a n x N :: int
  assumes "0 \<le> a" "a < N" "0 \<le> x" "x < n"
  shows "0 \<le> a * n" "a * n \<le> a * n + x" "a * n + x < N * n"
proof -
  have n0: "0 < n" using assms(3,4) by simp
  show "0 \<le> a * n" using assms(1) n0 by simp
  show "a * n \<le> a * n + x" using assms(3) by simp
  have "a + 1 \<le> N" using assms(2) by simp
  then have "(a + 1) * n \<le> N * n" using n0 by (intro mult_right_mono) simp_all
  then show "a * n + x < N * n" using assms(4) by (simp add: algebra_simps)
qed

lemma radix_step_inj:
  fixes a a' n x x' :: int
  assumes "0 \<le> x" "x < n" "0 \<le> x'" "x' < n" "a * n + x = a' * n + x'"
  shows "a = a' \<and> x = x'"
proof -
  have "(a * n + x) div n = a" "(a * n + x) mod n = x"
    using assms(1,2) by simp_all
  moreover have "(a' * n + x') div n = a'" "(a' * n + x') mod n = x'"
    using assms(3,4) by simp_all
  ultimately show ?thesis using assms(5) by simp
qed

lemma muladd_value:
  assumes "0 \<le> a" "a < N" "0 \<le> x" "x < n" "N * n \<le> INT_MAX"
  shows "muladd a n x = Inr (a * n + x)"
proof -
  note b = radix_step_bounds [OF assms(1-4)]
  have "mul_int a n = Inr (a * n)"
    using b assms(5) by (intro mul_int_in_range) (simp_all add: INT_MIN_def)
  moreover have "add_int (a * n) x = Inr (a * n + x)"
    using b assms(5) by (intro add_int_in_range) (simp_all add: INT_MIN_def)
  ultimately show ?thesis by (simp add: muladd_def)
qed

lemma nest_value:
  assumes "0 \<le> x0" "x0 < n0" "0 \<le> x1" "x1 < n1" "0 \<le> x2" "x2 < n2" "0 \<le> x3" "x3 < n3"
    and "n0 * n1 * n2 * n3 \<le> INT_MAX"
  shows "nest x0 n1 x1 n2 x2 n3 x3 = Inr (((x0 * n1 + x1) * n2 + x2) * n3 + x3)"
    and "0 \<le> ((x0 * n1 + x1) * n2 + x2) * n3 + x3"
    and "((x0 * n1 + x1) * n2 + x2) * n3 + x3 < n0 * n1 * n2 * n3"
proof -
  have pos: "0 < n0" "0 < n1" "0 < n2" "0 < n3" using assms(1-8) by simp_all
  let ?a = "x0 * n1 + x1" and ?b = "(x0 * n1 + x1) * n2 + x2"
  note s1 = radix_step_bounds [OF assms(1-4)]
  have a: "0 \<le> ?a" "?a < n0 * n1" using s1 by simp_all
  note s2 = radix_step_bounds [OF a assms(5,6)]
  have b: "0 \<le> ?b" "?b < n0 * n1 * n2" using s2 by simp_all
  note s3 = radix_step_bounds [OF b assms(7,8)]
  show "0 \<le> ?b * n3 + x3" "?b * n3 + x3 < n0 * n1 * n2 * n3" using s3 by simp_all
  have "0 \<le> n0 * n1 * n2" and "1 \<le> n3" using pos by simp_all
  then have "n0 * n1 * n2 * 1 \<le> n0 * n1 * n2 * n3" by (rule mult_left_mono [rotated])
  then have le3: "n0 * n1 * n2 \<le> n0 * n1 * n2 * n3" by simp
  have "0 \<le> n0 * n1" and "1 \<le> n2" using pos by simp_all
  then have "n0 * n1 * 1 \<le> n0 * n1 * n2" by (rule mult_left_mono [rotated])
  then have le2: "n0 * n1 \<le> n0 * n1 * n2" by simp
  have m1: "muladd x0 n1 x1 = Inr ?a"
    using assms(9) le2 le3 by (intro muladd_value [OF assms(1-4)]) simp
  have m2: "muladd ?a n2 x2 = Inr ?b"
    using assms(9) le3 by (intro muladd_value [OF a assms(5,6)]) simp
  have m3: "muladd ?b n3 x3 = Inr (?b * n3 + x3)"
    using assms(9) by (intro muladd_value [OF b assms(7,8)])
  show "nest x0 n1 x1 n2 x2 n3 x3 = Inr (?b * n3 + x3)"
    by (simp add: nest_def m1 m2 m3)
qed

lemma nest_inj:
  fixes x0 x1 x2 x3 y0 y1 y2 y3 n1 n2 n3 :: int
  assumes "0 \<le> x1" "x1 < n1" "0 \<le> x2" "x2 < n2" "0 \<le> x3" "x3 < n3"
    and "0 \<le> y1" "y1 < n1" "0 \<le> y2" "y2 < n2" "0 \<le> y3" "y3 < n3"
    and "((x0 * n1 + x1) * n2 + x2) * n3 + x3 = ((y0 * n1 + y1) * n2 + y2) * n3 + y3"
  shows "x0 = y0 \<and> x1 = y1 \<and> x2 = y2 \<and> x3 = y3"
proof -
  have e3: "(x0 * n1 + x1) * n2 + x2 = (y0 * n1 + y1) * n2 + y2 \<and> x3 = y3"
    by (rule radix_step_inj [OF assms(5,6,11,12,13)])
  have e2: "x0 * n1 + x1 = y0 * n1 + y1 \<and> x2 = y2"
    by (rule radix_step_inj [OF assms(3,4,9,10) conjunct1 [OF e3]])
  have e1: "x0 = y0 \<and> x1 = y1"
    by (rule radix_step_inj [OF assms(1,2,7,8) conjunct1 [OF e2]])
  show ?thesis using e1 e2 e3 by simp
qed

subsection \<open>A tensor without a window\<close>

lemma list4: "length xs = 4 \<Longrightarrow> xs = [xs ! 0, xs ! 1, xs ! 2, xs ! 3]"
  by (auto simp add: list_eq_iff_nth_eq less_Suc_eq numeral_eq_Suc)

lemma legacyShape_rank4:
  "length (shape_' t) = 4 \<Longrightarrow> legacyShape t 0 = Inr (shape_' t ! 0)"
  "length (shape_' t) = 4 \<Longrightarrow> legacyShape t 1 = Inr (shape_' t ! 1)"
  "length (shape_' t) = 4 \<Longrightarrow> legacyShape t 2 = Inr (shape_' t ! 2)"
  "length (shape_' t) = 4 \<Longrightarrow> legacyShape t 3 = Inr (shape_' t ! 3)"
  by (simp_all add: legacyShape_def numAxes_def shape_def canonicalAxisIndex_def at_def
      numeral_eq_Suc)

lemma at_rank4:
  "length xs = 4 \<Longrightarrow> at xs 1 = Inr (xs ! 1)"
  "length xs = 4 \<Longrightarrow> at xs 2 = Inr (xs ! 2)"
  "length xs = 4 \<Longrightarrow> at xs 3 = Inr (xs ! 3)"
  by (simp_all add: at_def numeral_eq_Suc)

lemma offset_plain:
  assumes "shape_offset_' t = []" and "length (shape_' t) = 4"
  shows "ctype_' t = BSHD \<Longrightarrow>
           offset t b h s d = nest b (shape_' t ! 1) s (shape_' t ! 2) h (shape_' t ! 3) d"
    and "ctype_' t = BHDS \<Longrightarrow>
           offset t b h s d = nest b (shape_' t ! 1) h (shape_' t ! 2) d (shape_' t ! 3) s"
    and "ctype_' t = SBHD \<Longrightarrow>
           offset t b h s d = nest s (shape_' t ! 1) b (shape_' t ! 2) h (shape_' t ! 3) d"
  using assms by (simp_all add: offset_def at_rank4)

lemma bij_betw_by_card:
  fixes f :: "'a \<Rightarrow> fault + int"
  assumes "finite A" and "card A = nat N" and "inj_on f A"
    and "\<And>p. p \<in> A \<Longrightarrow> \<exists>k. f p = Inr k \<and> 0 \<le> k \<and> k < N"
  shows "bij_betw f A (Inr ` {0..<N})"
proof -
  have sub: "f ` A \<subseteq> Inr ` {0..<N}"
    using assms(4) by fastforce
  have "card (f ` A) = card A" using assms(3) by (rule card_image)
  moreover have "card (Inr ` {0..<N} :: (fault + int) set) = nat N"
    by (simp add: card_image)
  ultimately have "card (f ` A) = card (Inr ` {0..<N} :: (fault + int) set)"
    using assms(2) by simp
  then have "f ` A = Inr ` {0..<N}"
    using sub by (intro card_subset_eq) simp_all
  then show ?thesis using assms(3) by (simp add: bij_betw_def)
qed

lemma card_box4:
  fixes B H S D :: int
  assumes "1 \<le> B" "1 \<le> H" "1 \<le> S" "1 \<le> D"
  shows "card ({0..<B} \<times> {0..<H} \<times> {0..<S} \<times> {0..<D}) = nat (B * H * S * D)"
  using assms by (simp add: card_cartesian_product nat_mult_distrib mult.assoc)

text \<open>
  C2. For a tensor with no stored offset vector and no stored master shape whose four
  logical extents are \<open>B\<close>, \<open>H\<close>, \<open>S\<close>, \<open>D\<close>, all at least 1, under each of the tags
  BSHD, BHDS and SBHD, \<open>offset\<close> maps the valid index tuples one-to-one onto
  \<open>0 .. B*H*S*D - 1\<close>, with no fault. The tensor's \<open>count_\<close> is the product of its
  extents and is an \<open>int\<close>, as \<open>reshape\<close> leaves it.
\<close>

theorem offset_plain_bijective:
  assumes "shape_offset_' t = []" and "shape_master_' t = []"
    and "length (shape_' t) = 4"
    and "ctype_' t = BSHD \<or> ctype_' t = BHDS \<or> ctype_' t = SBHD"
    and "batch t = Inr B" and "head t = Inr H" and "sequence t = Inr S"
    and "dimension t = Inr D"
    and "1 \<le> B" and "1 \<le> H" and "1 \<le> S" and "1 \<le> D"
    and "count_' t = B * H * S * D" and "is_int (count_' t)"
  shows "bij_betw (\<lambda>(b, h, s, d). offset t b h s d)
           ({0..<B} \<times> {0..<H} \<times> {0..<S} \<times> {0..<D}) (Inr ` {0..<B * H * S * D})"
proof (rule bij_betw_by_card)
  have total: "B * H * S * D \<le> INT_MAX"
    using assms(13,14) by (simp add: is_int_def)
  let ?A = "{0..<B} \<times> {0..<H} \<times> {0..<S} \<times> {0..<D}"
  let ?f = "\<lambda>(b, h, s, d). offset t b h s d"
  note r4 = legacyShape_rank4 [OF assms(3)]
  note off = offset_plain [OF assms(1,3)]
  show "finite ?A" by simp
  show "card ?A = nat (B * H * S * D)" using assms(9-12) by (rule card_box4)
  consider (bshd) "ctype_' t = BSHD" | (bhds) "ctype_' t = BHDS" | (sbhd) "ctype_' t = SBHD"
    using assms(4) by blast
  then have key: "\<exists>g. (\<forall>b h s d. 0 \<le> b \<and> b < B \<and> 0 \<le> h \<and> h < H \<and> 0 \<le> s \<and> s < S \<and> 0 \<le> d \<and> d < D
          \<longrightarrow> offset t b h s d = Inr (g b h s d) \<and> 0 \<le> g b h s d \<and> g b h s d < B * H * S * D)
        \<and> (\<forall>b h s d b' h' s' d'.
              0 \<le> b \<and> b < B \<and> 0 \<le> h \<and> h < H \<and> 0 \<le> s \<and> s < S \<and> 0 \<le> d \<and> d < D
            \<and> 0 \<le> b' \<and> b' < B \<and> 0 \<le> h' \<and> h' < H \<and> 0 \<le> s' \<and> s' < S \<and> 0 \<le> d' \<and> d' < D
            \<and> g b h s d = g b' h' s' d' \<longrightarrow> b = b' \<and> h = h' \<and> s = s' \<and> d = d')"
  proof cases
    case bshd
    have sh: "shape_' t ! 0 = B" "shape_' t ! 1 = S" "shape_' t ! 2 = H" "shape_' t ! 3 = D"
      using assms(5-8) bshd
      by (simp_all add: batch_def head_def sequence_def dimension_def r4)
    have n: "B * S * H * D \<le> INT_MAX" using total by (simp add: mult_ac)
    have v: "\<forall>b h s d. 0 \<le> b \<and> b < B \<and> 0 \<le> h \<and> h < H \<and> 0 \<le> s \<and> s < S \<and> 0 \<le> d \<and> d < D
          \<longrightarrow> offset t b h s d = Inr (((b * S + s) * H + h) * D + d)
            \<and> 0 \<le> ((b * S + s) * H + h) * D + d
            \<and> ((b * S + s) * H + h) * D + d < B * H * S * D"
    proof (intro allI impI)
      fix b h s d
      assume "0 \<le> b \<and> b < B \<and> 0 \<le> h \<and> h < H \<and> 0 \<le> s \<and> s < S \<and> 0 \<le> d \<and> d < D"
      then have r: "0 \<le> b" "b < B" "0 \<le> s" "s < S" "0 \<le> h" "h < H" "0 \<le> d" "d < D"
        by simp_all
      show "offset t b h s d = Inr (((b * S + s) * H + h) * D + d)
            \<and> 0 \<le> ((b * S + s) * H + h) * D + d
            \<and> ((b * S + s) * H + h) * D + d < B * H * S * D"
        using nest_value [OF r n] by (simp add: off(1) [OF bshd, unfolded sh] mult_ac)
    qed
    have i: "\<forall>b h s d b' h' s' d'. 0 \<le> b \<and> b < B \<and> 0 \<le> h \<and> h < H \<and> 0 \<le> s \<and> s < S \<and> 0 \<le> d \<and> d < D
            \<and> 0 \<le> b' \<and> b' < B \<and> 0 \<le> h' \<and> h' < H \<and> 0 \<le> s' \<and> s' < S \<and> 0 \<le> d' \<and> d' < D
            \<and> ((b * S + s) * H + h) * D + d = ((b' * S + s') * H + h') * D + d'
          \<longrightarrow> b = b' \<and> h = h' \<and> s = s' \<and> d = d'"
    proof (intro allI impI)
      fix b h s d b' h' s' d'
      assume a: "0 \<le> b \<and> b < B \<and> 0 \<le> h \<and> h < H \<and> 0 \<le> s \<and> s < S \<and> 0 \<le> d \<and> d < D
            \<and> 0 \<le> b' \<and> b' < B \<and> 0 \<le> h' \<and> h' < H \<and> 0 \<le> s' \<and> s' < S \<and> 0 \<le> d' \<and> d' < D
            \<and> ((b * S + s) * H + h) * D + d = ((b' * S + s') * H + h') * D + d'"
      then have "b = b' \<and> s = s' \<and> h = h' \<and> d = d'"
        by (intro nest_inj [where ?n1.0 = S and ?n2.0 = H and ?n3.0 = D]) simp_all
      then show "b = b' \<and> h = h' \<and> s = s' \<and> d = d'" by simp
    qed
    show ?thesis
      by (rule exI [where x = "\<lambda>b h s d. ((b * S + s) * H + h) * D + d"], intro conjI, rule v, rule i)
  next
    case bhds
    have sh: "shape_' t ! 0 = B" "shape_' t ! 1 = H" "shape_' t ! 2 = D" "shape_' t ! 3 = S"
      using assms(5-8) bhds
      by (simp_all add: batch_def head_def sequence_def dimension_def r4)
    have n: "B * H * D * S \<le> INT_MAX" using total by (simp add: mult_ac)
    have v: "\<forall>b h s d. 0 \<le> b \<and> b < B \<and> 0 \<le> h \<and> h < H \<and> 0 \<le> s \<and> s < S \<and> 0 \<le> d \<and> d < D
          \<longrightarrow> offset t b h s d = Inr (((b * H + h) * D + d) * S + s)
            \<and> 0 \<le> ((b * H + h) * D + d) * S + s
            \<and> ((b * H + h) * D + d) * S + s < B * H * S * D"
    proof (intro allI impI)
      fix b h s d
      assume "0 \<le> b \<and> b < B \<and> 0 \<le> h \<and> h < H \<and> 0 \<le> s \<and> s < S \<and> 0 \<le> d \<and> d < D"
      then have r: "0 \<le> b" "b < B" "0 \<le> h" "h < H" "0 \<le> d" "d < D" "0 \<le> s" "s < S"
        by simp_all
      show "offset t b h s d = Inr (((b * H + h) * D + d) * S + s)
            \<and> 0 \<le> ((b * H + h) * D + d) * S + s
            \<and> ((b * H + h) * D + d) * S + s < B * H * S * D"
        using nest_value [OF r n] by (simp add: off(2) [OF bhds, unfolded sh] mult_ac)
    qed
    have i: "\<forall>b h s d b' h' s' d'. 0 \<le> b \<and> b < B \<and> 0 \<le> h \<and> h < H \<and> 0 \<le> s \<and> s < S \<and> 0 \<le> d \<and> d < D
            \<and> 0 \<le> b' \<and> b' < B \<and> 0 \<le> h' \<and> h' < H \<and> 0 \<le> s' \<and> s' < S \<and> 0 \<le> d' \<and> d' < D
            \<and> ((b * H + h) * D + d) * S + s = ((b' * H + h') * D + d') * S + s'
          \<longrightarrow> b = b' \<and> h = h' \<and> s = s' \<and> d = d'"
    proof (intro allI impI)
      fix b h s d b' h' s' d'
      assume a: "0 \<le> b \<and> b < B \<and> 0 \<le> h \<and> h < H \<and> 0 \<le> s \<and> s < S \<and> 0 \<le> d \<and> d < D
            \<and> 0 \<le> b' \<and> b' < B \<and> 0 \<le> h' \<and> h' < H \<and> 0 \<le> s' \<and> s' < S \<and> 0 \<le> d' \<and> d' < D
            \<and> ((b * H + h) * D + d) * S + s = ((b' * H + h') * D + d') * S + s'"
      then have "b = b' \<and> h = h' \<and> d = d' \<and> s = s'"
        by (intro nest_inj [where ?n1.0 = H and ?n2.0 = D and ?n3.0 = S]) simp_all
      then show "b = b' \<and> h = h' \<and> s = s' \<and> d = d'" by simp
    qed
    show ?thesis
      by (rule exI [where x = "\<lambda>b h s d. ((b * H + h) * D + d) * S + s"], intro conjI, rule v, rule i)
  next
    case sbhd
    have sh: "shape_' t ! 0 = S" "shape_' t ! 1 = B" "shape_' t ! 2 = H" "shape_' t ! 3 = D"
      using assms(5-8) sbhd
      by (simp_all add: batch_def head_def sequence_def dimension_def r4)
    have n: "S * B * H * D \<le> INT_MAX" using total by (simp add: mult_ac)
    have v: "\<forall>b h s d. 0 \<le> b \<and> b < B \<and> 0 \<le> h \<and> h < H \<and> 0 \<le> s \<and> s < S \<and> 0 \<le> d \<and> d < D
          \<longrightarrow> offset t b h s d = Inr (((s * B + b) * H + h) * D + d)
            \<and> 0 \<le> ((s * B + b) * H + h) * D + d
            \<and> ((s * B + b) * H + h) * D + d < B * H * S * D"
    proof (intro allI impI)
      fix b h s d
      assume "0 \<le> b \<and> b < B \<and> 0 \<le> h \<and> h < H \<and> 0 \<le> s \<and> s < S \<and> 0 \<le> d \<and> d < D"
      then have r: "0 \<le> s" "s < S" "0 \<le> b" "b < B" "0 \<le> h" "h < H" "0 \<le> d" "d < D"
        by simp_all
      show "offset t b h s d = Inr (((s * B + b) * H + h) * D + d)
            \<and> 0 \<le> ((s * B + b) * H + h) * D + d
            \<and> ((s * B + b) * H + h) * D + d < B * H * S * D"
        using nest_value [OF r n] by (simp add: off(3) [OF sbhd, unfolded sh] mult_ac)
    qed
    have i: "\<forall>b h s d b' h' s' d'. 0 \<le> b \<and> b < B \<and> 0 \<le> h \<and> h < H \<and> 0 \<le> s \<and> s < S \<and> 0 \<le> d \<and> d < D
            \<and> 0 \<le> b' \<and> b' < B \<and> 0 \<le> h' \<and> h' < H \<and> 0 \<le> s' \<and> s' < S \<and> 0 \<le> d' \<and> d' < D
            \<and> ((s * B + b) * H + h) * D + d = ((s' * B + b') * H + h') * D + d'
          \<longrightarrow> b = b' \<and> h = h' \<and> s = s' \<and> d = d'"
    proof (intro allI impI)
      fix b h s d b' h' s' d'
      assume a: "0 \<le> b \<and> b < B \<and> 0 \<le> h \<and> h < H \<and> 0 \<le> s \<and> s < S \<and> 0 \<le> d \<and> d < D
            \<and> 0 \<le> b' \<and> b' < B \<and> 0 \<le> h' \<and> h' < H \<and> 0 \<le> s' \<and> s' < S \<and> 0 \<le> d' \<and> d' < D
            \<and> ((s * B + b) * H + h) * D + d = ((s' * B + b') * H + h') * D + d'"
      then have "s = s' \<and> b = b' \<and> h = h' \<and> d = d'"
        by (intro nest_inj [where ?n1.0 = B and ?n2.0 = H and ?n3.0 = D]) simp_all
      then show "b = b' \<and> h = h' \<and> s = s' \<and> d = d'" by simp
    qed
    show ?thesis
      by (rule exI [where x = "\<lambda>b h s d. ((s * B + b) * H + h) * D + d"], intro conjI, rule v, rule i)
  qed
  then obtain g where
    val: "\<And>b h s d. 0 \<le> b \<and> b < B \<and> 0 \<le> h \<and> h < H \<and> 0 \<le> s \<and> s < S \<and> 0 \<le> d \<and> d < D
          \<Longrightarrow> offset t b h s d = Inr (g b h s d) \<and> 0 \<le> g b h s d \<and> g b h s d < B * H * S * D"
    and ginj: "\<And>b h s d b' h' s' d'.
              0 \<le> b \<and> b < B \<and> 0 \<le> h \<and> h < H \<and> 0 \<le> s \<and> s < S \<and> 0 \<le> d \<and> d < D
            \<and> 0 \<le> b' \<and> b' < B \<and> 0 \<le> h' \<and> h' < H \<and> 0 \<le> s' \<and> s' < S \<and> 0 \<le> d' \<and> d' < D
            \<and> g b h s d = g b' h' s' d' \<Longrightarrow> b = b' \<and> h = h' \<and> s = s' \<and> d = d'"
    by blast
  show "inj_on ?f ?A"
  proof (rule inj_onI)
    fix p q assume p: "p \<in> ?A" and q: "q \<in> ?A" and e: "?f p = ?f q"
    obtain b h s d where pe: "p = (b, h, s, d)" by (cases p) auto
    obtain b' h' s' d' where qe: "q = (b', h', s', d')" by (cases q) auto
    have rp: "0 \<le> b \<and> b < B \<and> 0 \<le> h \<and> h < H \<and> 0 \<le> s \<and> s < S \<and> 0 \<le> d \<and> d < D"
      using p pe by simp
    have rq: "0 \<le> b' \<and> b' < B \<and> 0 \<le> h' \<and> h' < H \<and> 0 \<le> s' \<and> s' < S \<and> 0 \<le> d' \<and> d' < D"
      using q qe by simp
    have "g b h s d = g b' h' s' d'"
      using e val [OF rp] val [OF rq] by (simp add: pe qe)
    then have "b = b' \<and> h = h' \<and> s = s' \<and> d = d'"
      using rp rq by (intro ginj) simp
    then show "p = q" by (simp add: pe qe)
  qed
  show "\<exists>k. ?f p = Inr k \<and> 0 \<le> k \<and> k < B * H * S * D" if "p \<in> ?A" for p
  proof -
    obtain b h s d where pe: "p = (b, h, s, d)" by (cases p) auto
    have rp: "0 \<le> b \<and> b < B \<and> 0 \<le> h \<and> h < H \<and> 0 \<le> s \<and> s < S \<and> 0 \<le> d \<and> d < D"
      using that pe by simp
    show ?thesis using val [OF rp] by (simp add: pe)
  qed
qed

theorem offset_plain_bijective_witness:
  "batch (Tensor_ctor\<lparr>ctype_' := BHDS, shape_' := [2, 2, 5, 3], count_' := 60\<rparr>) = Inr 2
   \<and> head (Tensor_ctor\<lparr>ctype_' := BHDS, shape_' := [2, 2, 5, 3], count_' := 60\<rparr>) = Inr 2
   \<and> sequence (Tensor_ctor\<lparr>ctype_' := BHDS, shape_' := [2, 2, 5, 3], count_' := 60\<rparr>) = Inr 3
   \<and> dimension (Tensor_ctor\<lparr>ctype_' := BHDS, shape_' := [2, 2, 5, 3], count_' := 60\<rparr>) = Inr 5
   \<and> bij_betw
        (\<lambda>(b, h, s, d).
            offset (Tensor_ctor\<lparr>ctype_' := BHDS, shape_' := [2, 2, 5, 3], count_' := 60\<rparr>) b h s d)
        ({0..<2} \<times> {0..<2} \<times> {0..<3} \<times> {0..<5}) (Inr ` {0..<60})"
proof -
  let ?T = "Tensor_ctor\<lparr>ctype_' := BHDS, shape_' := [2, 2, 5, 3], count_' := 60\<rparr>"
  have acc: "batch ?T = Inr 2" "head ?T = Inr 2" "sequence ?T = Inr 3" "dimension ?T = Inr 5"
    by (simp_all add: Tensor_ctor_def batch_def head_def sequence_def dimension_def
        legacyShape_def numAxes_def shape_def canonicalAxisIndex_def at_def)
  have "bij_betw (\<lambda>(b, h, s, d). offset ?T b h s d)
          ({0..<2} \<times> {0..<2} \<times> {0..<3} \<times> {0..<5}) (Inr ` {0..<2 * 2 * 3 * 5})"
    using acc
    by (intro offset_plain_bijective)
       (simp_all add: Tensor_ctor_def is_int_def INT_MAX_def INT_MIN_def)
  then show ?thesis using acc by simp
qed

section \<open>The aligned allocator\<close>

lemma take_bit_and_not_mask:
  fixes x :: "'a::len word"
  shows "take_bit k (x AND NOT (mask k)) = 0"
  by (rule bit_eqI) (simp add: bit_simps)

lemma and_not_mask_mod:
  fixes x :: "64 word"
  shows "(x AND NOT (2 ^ k - 1)) mod 2 ^ k = 0"
  using take_bit_and_not_mask [of k x]
  by (simp add: take_bit_eq_mod mask_eq_decr_exp)

lemma and_not_mask_push_drop:
  fixes x :: "'a::len word"
  shows "x AND NOT (mask k) = push_bit k (drop_bit k x)"
  by (rule bit_eqI) (auto simp add: bit_simps)

lemma unat_and_not_mask:
  fixes x :: "'a::len word"
  shows "unat (x AND NOT (mask k)) = unat x div 2 ^ k * 2 ^ k"
proof -
  have le: "unat x div 2 ^ k * 2 ^ k \<le> unat x" by simp
  have "unat x < 2 ^ LENGTH('a)" by (rule unsigned_less)
  then have lt: "unat x div 2 ^ k * 2 ^ k < 2 ^ LENGTH('a)" using le by linarith
  have "unat (push_bit k (drop_bit k x)) = take_bit LENGTH('a) (push_bit k (drop_bit k (unat x)))"
  proof -
    have "take_bit LENGTH('a) (unat x) = unat x"
      by (simp add: take_bit_nat_eq_self_iff unsigned_less)
    then show ?thesis by (simp add: unsigned_push_bit_eq unsigned_drop_bit_eq)
  qed
  also have "\<dots> = (unat x div 2 ^ k * 2 ^ k) mod 2 ^ LENGTH('a)"
    by (simp add: take_bit_eq_mod push_bit_eq_mult drop_bit_eq_div)
  also have "\<dots> = unat x div 2 ^ k * 2 ^ k" using lt by simp
  finally show ?thesis by (simp add: and_not_mask_push_drop)
qed


lemma unat_two_power:
  assumes "k < 64"
  shows "unat (2 ^ k :: 64 word) = 2 ^ k"
proof -
  have lt: "(2::nat) ^ k < 2 ^ 64" using assms by (intro power_strict_increasing) simp_all
  have "(2 ^ k :: 64 word) = of_nat (2 ^ k)" by simp
  then have "unat (2 ^ k :: 64 word) = 2 ^ k mod 2 ^ LENGTH(64)"
    by (simp only: unat_of_nat)
  then show ?thesis using lt by simp
qed

lemma round_down_bounds:
  fixes X a :: nat
  assumes "0 < a"
  shows "X div a * a \<le> X" and "X < X div a * a + a"
proof -
  show "X div a * a \<le> X" by simp
  have "X = X div a * a + X mod a" by simp
  moreover have "X mod a < a" using assms by simp
  ultimately show "X < X div a * a + a" by linarith
qed


lemma unat_sum_decr:
  fixes x y z :: "64 word"
  assumes "unat x + unat y + unat z < 2 ^ 64" and "0 < unat z"
  shows "unat (x + y + z - 1) = unat x + unat y + unat z - 1"
proof -
  have xy: "unat (x + y) = unat x + unat y"
    using assms(1) by (intro unat_add_lem [THEN iffD1]) simp
  have "unat (x + y) + unat z < 2 ^ LENGTH(64)" using assms(1) xy by simp
  then have "unat (x + y + z) = unat (x + y) + unat z" by (rule unat_add_lem [THEN iffD1])
  then have xyz: "unat (x + y + z) = unat x + unat y + unat z" using xy by simp
  have "unat (x + y + z) \<noteq> 0" using xyz assms(2) by simp
  then have "x + y + z \<noteq> 0" by (simp add: unat_eq_0)
  then have "unat (x + y + z - 1) = unat (x + y + z) - 1" by (rule unat_minus_one)
  then show ?thesis using xyz by simp
qed


lemma unat_sub_ptr:
  fixes a :: "64 word"
  assumes "8 \<le> unat a"
  shows "unat (a - sizeof_ptr) = unat a - 8"
proof -
  have "sizeof_ptr \<le> a" using assms by (simp add: word_le_nat_alt sizeof_ptr_def)
  then have "unat (a - sizeof_ptr) = unat a - unat sizeof_ptr" by (rule unat_sub)
  then show ?thesis by (simp add: sizeof_ptr_def)
qed

text \<open>
  C7. For a size greater than 0 and an alignment \<open>2 ^ k\<close>, when \<open>malloc\<close> succeeds and
  the block of \<open>size + sizeof(void*) + alignment - 1\<close> bytes at the address it returns
  ends within the address space (so that the sum has not wrapped around), \<open>alloc\<close> asks
  \<open>malloc\<close> for that many bytes, returns an address that is a multiple of the alignment,
  and stores the address of the block in the word just before the returned one; that
  word and the \<open>size\<close> bytes after the returned address lie inside the block. \<open>free\<close> on
  the returned pointer reads that word and frees the block, so that the live blocks are
  the ones from before the allocation.
\<close>

theorem SystemMemoryManager_alloc_aligned:
  assumes "0 < sz" and "k < 64" and "alignment = 2 ^ k" and "origin \<noteq> nullptr"
      and nowrap: "unat origin + unat sz + 8 + 2 ^ k - 1 < 2 ^ 64"
  shows "\<exists>aligned hp'.
           SystemMemoryManager_alloc hp origin sz alignment = Inr (aligned, hp')
         \<and> aligned mod alignment = 0
         \<and> unat aligned mod unat alignment = 0
         \<and> blocks hp' = (origin, sz + sizeof_ptr + alignment - 1) # blocks hp
         \<and> unat (sz + sizeof_ptr + alignment - 1) = unat sz + 8 + 2 ^ k - 1
         \<and> mem hp' (aligned - sizeof_ptr) = origin
         \<and> unat (aligned - sizeof_ptr) = unat aligned - 8
         \<and> unat origin + 8 \<le> unat aligned
         \<and> unat aligned + unat sz \<le> unat origin + unat (sz + sizeof_ptr + alignment - 1)
         \<and> SystemMemoryManager_free hp' aligned
             = Inr (hp'\<lparr>blocks := filter (\<lambda>blk. fst blk \<noteq> origin) (blocks hp)\<rparr>)
         \<and> (\<not> list_ex (\<lambda>blk. fst blk = origin) (blocks hp) \<longrightarrow>
              SystemMemoryManager_free hp' aligned = Inr (hp'\<lparr>blocks := blocks hp\<rparr>))"
proof -
  define request where "request = sz + sizeof_ptr + alignment - 1"
  define aligned where "aligned = (origin + sizeof_ptr + alignment - 1) AND NOT (alignment - 1)"
  define hp' where
    "hp' = hp\<lparr>blocks := (origin, request) # blocks hp,
              mem := (mem hp)(aligned - sizeof_ptr := origin)\<rparr>"
  have al: "aligned = (origin + sizeof_ptr + alignment - 1) AND NOT (mask k)"
    by (simp add: aligned_def assms(3) mask_eq_decr_exp)
  have m1: "aligned mod alignment = 0"
    unfolding aligned_def assms(3) by (rule and_not_mask_mod)
  have ua: "unat alignment = 2 ^ k"
    unfolding assms(3) using assms(2) by (rule unat_two_power)
  have un: "unat aligned = unat (origin + sizeof_ptr + alignment - 1) div 2 ^ k * 2 ^ k"
    unfolding al by (rule unat_and_not_mask)
  have m2: "unat aligned mod unat alignment = 0"
    by (simp add: ua un)
  have s0: "0 < unat sz" using assms(1) by (simp add: word_less_nat_alt)
  have p8: "unat sizeof_ptr = 8" by (simp add: sizeof_ptr_def)
  have a0: "0 < unat alignment" by (simp add: ua)
  have "unat origin + unat sizeof_ptr + unat alignment < 2 ^ 64"
    using nowrap s0 by (simp add: ua p8)
  then have "unat (origin + sizeof_ptr + alignment - 1)
               = unat origin + unat sizeof_ptr + unat alignment - 1"
    using a0 by (rule unat_sum_decr)
  then have w: "unat (origin + sizeof_ptr + alignment - 1) = unat origin + 8 + 2 ^ k - 1"
    by (simp add: ua p8)
  have o0: "0 < unat origin"
    using assms(4) by (simp add: nullptr_def unat_gt_0)
  have "unat sz + unat sizeof_ptr + unat alignment < 2 ^ 64"
    using nowrap o0 unfolding ua p8 by linarith
  then have "unat (sz + sizeof_ptr + alignment - 1)
               = unat sz + unat sizeof_ptr + unat alignment - 1"
    using a0 by (rule unat_sum_decr)
  then have r: "unat request = unat sz + 8 + 2 ^ k - 1"
    by (simp add: ua p8 request_def)
  have k0: "0 < (2::nat) ^ k" by simp
  define Y where "Y = (unat origin + 8 + 2 ^ k - 1) div 2 ^ k * 2 ^ k"
  have y: "unat aligned = Y" by (simp only: un w Y_def)
  have yb: "Y \<le> unat origin + 8 + 2 ^ k - 1" "unat origin + 8 + 2 ^ k - 1 < Y + 2 ^ k"
    unfolding Y_def by (rule round_down_bounds [OF k0])+
  have lo: "unat origin + 8 \<le> unat aligned" unfolding y using yb k0 by linarith
  have hi: "unat aligned + unat sz \<le> unat origin + unat request"
    unfolding y r using yb k0 by linarith
  have sub: "unat (aligned - sizeof_ptr) = unat aligned - 8"
    using lo by (intro unat_sub_ptr) linarith
  have ins: "inside (origin, request) (aligned - sizeof_ptr)"
    unfolding inside_def sub using lo hi s0 by simp
  have run: "SystemMemoryManager_alloc hp origin sz alignment = Inr (aligned, hp')"
    using assms(1,4) ins
    by (simp add: SystemMemoryManager_alloc_def Let_def aligned_def hp'_def request_def)
  have blk: "blocks hp' = (origin, request) # blocks hp"
    by (simp add: hp'_def)
  have hid: "mem hp' (aligned - sizeof_ptr) = origin"
    by (simp add: hp'_def)
  have fr: "SystemMemoryManager_free hp' aligned
             = Inr (hp'\<lparr>blocks := filter (\<lambda>blk. fst blk \<noteq> origin) (blocks hp)\<rparr>)"
    using assms(4) ins by (simp add: SystemMemoryManager_free_def Let_def hid blk)
  have restored: "SystemMemoryManager_free hp' aligned = Inr (hp'\<lparr>blocks := blocks hp\<rparr>)"
    if "\<not> list_ex (\<lambda>blk. fst blk = origin) (blocks hp)"
  proof -
    have "filter (\<lambda>blk. fst blk \<noteq> origin) (blocks hp) = blocks hp"
      using that by (simp add: list_ex_iff filter_id_conv)
    then show ?thesis using fr by simp
  qed
  show ?thesis
    by (rule exI [where x = aligned], rule exI [where x = hp'])
       (intro conjI impI run m1 m2 blk [unfolded request_def] r [unfolded request_def] hid sub
          lo hi [unfolded request_def] fr restored; assumption)
qed

theorem SystemMemoryManager_alloc_aligned_witness:
  "\<exists>aligned hp'.
      SystemMemoryManager_alloc empty_heap 4104 100 64 = Inr (aligned, hp')
    \<and> aligned mod 64 = 0
    \<and> blocks hp' = [(4104, 171)]
    \<and> mem hp' (aligned - 8) = 4104
    \<and> 4104 + 8 \<le> unat aligned
    \<and> unat aligned + 100 \<le> 4104 + 171
    \<and> SystemMemoryManager_free hp' aligned = Inr (hp'\<lparr>blocks := []\<rparr>)"
proof -
  have k: "(64 :: 64 word) = 2 ^ 6" by simp
  have h: "(0 :: 64 word) < 100" "(6 :: nat) < 64" "(4104 :: 64 word) \<noteq> nullptr"
          "unat (4104 :: 64 word) + unat (100 :: 64 word) + 8 + 2 ^ 6 - 1 < 2 ^ 64"
    by (simp_all add: nullptr_def)
  show ?thesis
    using SystemMemoryManager_alloc_aligned
            [where hp = "empty_heap" and origin = 4104
               and sz = 100 and alignment = 64 and k = 6, OF h(1,2) k h(3,4)]
    apply (elim exE conjE)
    subgoal for aligned hp'
      apply (rule exI [where x = aligned], rule exI [where x = hp'])
      apply (simp add: sizeof_ptr_def empty_heap_def)
      done
    done
qed

text \<open>
  A size for which the request wraps around to 0 bytes: the word before the aligned
  address is 8 bytes past the start of a block of no bytes.
\<close>

theorem SystemMemoryManager_alloc_aligned_counterexample:
  "(0 :: 64 word) < 18446744073709551593 \<and> (16 :: 64 word) = 2 ^ 4 \<and> (4096 :: ptr) \<noteq> nullptr
   \<and> (18446744073709551593 :: 64 word) + sizeof_ptr + 16 - 1 = 0
   \<and> (4096 + sizeof_ptr + 16 - 1) AND NOT (16 - 1) = (4112 :: ptr)
   \<and> SystemMemoryManager_alloc empty_heap 4096 18446744073709551593 16
       = Inl OutOfBlock"
  by (simp add: SystemMemoryManager_alloc_def inside_def sizeof_ptr_def nullptr_def Let_def
        empty_heap_def)

section \<open>Binding a child to a master\<close>

lemma deref_Some [simp]: "st p = Some t \<Longrightarrow> deref st p = Inr t"
  by (simp add: deref_def)

lemma deref_None [simp]: "st p = None \<Longrightarrow> deref st p = Inl NullDeref"
  by (simp add: deref_def)

lemma andThen_Inr_iff:
  "andThen m f = Inr y \<longleftrightarrow> (\<exists>x. m = Inr x \<and> f x = Inr y)"
  by (cases m) simp_all

text \<open>What a successful 4-axis \<open>reshape\<close> leaves behind.\<close>

lemma reshape_Inr:
  assumes "reshape t shp = Inr (r, t')"
  shows "\<exists>c k. t' = t\<lparr>count_' := c, shape_' := shp, capacity_' := k\<rparr>"
proof -
  obtain c where c: "reshape_count shp 1 = Inr c"
    and t': "t' = (if c > capacity_' t then t\<lparr>count_' := c, shape_' := shp, capacity_' := c\<rparr>
                   else t\<lparr>count_' := c, shape_' := shp\<rparr>)"
    using assms by (auto simp add: reshape_def Let_def andThen_Inr_iff split: if_splits)
  show ?thesis
  proof (cases "c > capacity_' t")
    case True
    then show ?thesis using t' by auto
  next
    case False
    then have "t' = t\<lparr>count_' := c, shape_' := shp, capacity_' := capacity_' t\<rparr>"
      using t' by simp
    then show ?thesis by blast
  qed
qed

lemma reshape4_Inr:
  assumes "reshape4 t b h s d = Inr (r, t')"
  shows "ctype_' t = BSHD \<or> ctype_' t = BHDS \<or> ctype_' t = SBHD"
    and "\<exists>c k. t' = t\<lparr>count_' := c,
                shape_' := (case ctype_' t of BSHD \<Rightarrow> [b, s, h, d]
                            | BHDS \<Rightarrow> [b, h, d, s] | _ \<Rightarrow> [s, b, h, d]),
                capacity_' := k\<rparr>"
  using assms by (auto simp add: reshape4_def split: ChlType.splits dest: reshape_Inr)

lemma reshape4_extents:
  assumes "reshape4 t b h s d = Inr (r, t')"
  shows "batch t' = Inr b" "head t' = Inr h" "sequence t' = Inr s" "dimension t' = Inr d"
    and "ctype_' t' = ctype_' t"
  using reshape4_Inr [OF assms]
  by (auto simp add: batch_def head_def sequence_def dimension_def legacyShape_def numAxes_def
      shape_def canonicalAxisIndex_def at_def)

text \<open>The accessors read the tag and the shape vector only.\<close>

lemma legacyShape_cong: "shape_' t' = shape_' t \<Longrightarrow> legacyShape t' i = legacyShape t i"
  by (simp add: legacyShape_def numAxes_def shape_def canonicalAxisIndex_def)

lemma accessors_cong:
  assumes "ctype_' t' = ctype_' t" and "shape_' t' = shape_' t"
  shows "batch t' = batch t" "head t' = head t" "sequence t' = sequence t"
    "dimension t' = dimension t"
  by (simp_all add: batch_def head_def sequence_def dimension_def assms(1)
      legacyShape_cong [OF assms(2)] split: ChlType.split)

text \<open>The effect of each block of \<open>deepCopyFrom\<close> on the store.\<close>

lemma deepCopyFrom_tags_result:
  assumes "st this = Some C" and "st (master_tensor_' C) = Some M"
    and "deepCopyFrom_tags st this = Inr st2"
  shows "\<not> (ctype_' C \<noteq> BCTHW \<and> ctype_' C \<noteq> BTHWC \<and> ctype_' C \<noteq> ctype_' M
            \<and> \<not> undiffusion_' C) \<Longrightarrow> st2 = st"
    and "ctype_' C \<noteq> BCTHW \<and> ctype_' C \<noteq> BTHWC \<and> ctype_' C \<noteq> ctype_' M
            \<and> \<not> undiffusion_' C \<Longrightarrow> transed_' C \<Longrightarrow>
         \<exists>b h s d r M2. batch M = Inr b \<and> head M = Inr h \<and> sequence M = Inr s
           \<and> dimension M = Inr d
           \<and> reshape4 (M\<lparr>ctype_' := ctype_' C\<rparr>) b h s d = Inr (r, M2)
           \<and> st2 = st(master_tensor_' C \<mapsto> M2)"
    and "ctype_' C \<noteq> BCTHW \<and> ctype_' C \<noteq> BTHWC \<and> ctype_' C \<noteq> ctype_' M
            \<and> \<not> undiffusion_' C \<Longrightarrow> \<not> transed_' C \<Longrightarrow>
         \<exists>b h s d r C2. batch C = Inr b \<and> head C = Inr h \<and> sequence C = Inr s
           \<and> dimension C = Inr d
           \<and> reshape4 (C\<lparr>ctype_' := ctype_' M\<rparr>) b h s d = Inr (r, C2)
           \<and> st2 = st(this \<mapsto> C2)"
  using assms
  by (auto simp add: deepCopyFrom_tags_def andThen_Inr_iff split: if_splits)

lemma deepCopyFrom_fields_result:
  assumes "st this = Some C" and "st source = Some M"
  shows "deepCopyFrom_fields st this source copyshape =
           Inr (st(this \<mapsto> C\<lparr>host_ptr_' := host_ptr_' M, capacity_' := capacity_' M,
                             count_' := count_' M,
                             shape_' := (if copyshape then shape_' M else shape_' C),
                             allocated_' := allocated_' M, dtype_' := dtype_' M\<rparr>))"
  using assms by (simp add: deepCopyFrom_fields_def)

lemma deepCopyFrom_window_result:
  assumes "st this = Some C" and "deepCopyFrom_window st this source shape_offset head_rep = Inr st4"
  shows "\<exists>so sm. st4 = st(this \<mapsto> C\<lparr>shape_offset_' := so, shape_master_' := sm\<rparr>)"
proof (cases "shape_offset = []")
  case True
  then have "st4 = st" using assms(2) by (simp add: deepCopyFrom_window_def)
  then have "st4 = st(this \<mapsto> C\<lparr>shape_offset_' := shape_offset_' C,
                                  shape_master_' := shape_master_' C\<rparr>)"
    using assms(1) by (simp add: map_upd_triv)
  then show ?thesis by blast
next
  case False
  then show ?thesis
    using assms
    by (auto simp add: deepCopyFrom_window_def andThen_Inr_iff Let_def deref_def
        split: if_splits option.splits)
qed

lemma deepCopyFrom_tags_defined:
  assumes "st this = Some C" and "st source = Some M"
    and "deepCopyFrom_tags st this = Inr st2"
  shows "\<exists>C2 M2. st2 this = Some C2 \<and> st2 source = Some M2"
  using assms
  by (auto simp add: deepCopyFrom_tags_def andThen_Inr_iff deref_def
      split: if_splits option.splits)


text \<open>
  The call up to the loop, with \<open>this\<close> and \<open>source\<close> two objects: the store after the
  reconciliation of the tags determines the child, and nothing else changes after it.
\<close>

lemma deepCopyFrom_reconciled_unfold:
  assumes "st this = Some C"
  shows "deepCopyFrom_reconciled st this source
           = deepCopyFrom_tags (st(this \<mapsto> C\<lparr>master_tensor_' := source\<rparr>)) this"
  using assms by (simp add: deepCopyFrom_reconciled_def setMasterTensor_def)

lemma deepCopyFrom_bound_unfold:
  assumes "st this = Some C" and "st source = Some M" and "this \<noteq> source"
    and "deepCopyFrom_bound st this source copyshape shape_offset head_rep = Inr st4"
  shows "\<exists>st2 C2 M2 so sm.
           deepCopyFrom_tags (st(this \<mapsto> C\<lparr>master_tensor_' := source\<rparr>)) this = Inr st2
         \<and> st2 this = Some C2 \<and> st2 source = Some M2
         \<and> st4 = st2(this \<mapsto>
             C2\<lparr>host_ptr_' := host_ptr_' M2, capacity_' := capacity_' M2,
                count_' := count_' M2,
                shape_' := (if copyshape \<and> shape_offset = [] then shape_' M2
                            else shape_' C2),
                allocated_' := allocated_' M2, dtype_' := dtype_' M2,
                shape_offset_' := so, shape_master_' := sm\<rparr>)"
proof -
  let ?C1 = "C\<lparr>master_tensor_' := source\<rparr>"
  let ?st1 = "st(this \<mapsto> ?C1)"
  let ?cs = "if shape_offset \<noteq> [] then False else copyshape"
  from assms(4) obtain st2 st3 where
    t: "deepCopyFrom_tags ?st1 this = Inr st2"
    and f: "deepCopyFrom_fields st2 this source ?cs = Inr st3"
    and w: "deepCopyFrom_window st3 this source shape_offset head_rep = Inr st4"
    by (auto simp add: deepCopyFrom_bound_def deepCopyFrom_reconciled_unfold [where st = st and this = this and C = C, OF assms(1)]
        Let_def andThen_Inr_iff)
  have "?st1 this = Some (C\<lparr>master_tensor_' := source\<rparr>)" and "?st1 source = Some M"
    using assms(2,3) by simp_all
  from deepCopyFrom_tags_defined [OF this t]
  obtain C2 M2 where c2: "st2 this = Some C2" and m2: "st2 source = Some M2" by blast
  let ?C3 = "C2\<lparr>host_ptr_' := host_ptr_' M2, capacity_' := capacity_' M2,
               count_' := count_' M2, shape_' := (if ?cs then shape_' M2 else shape_' C2),
               allocated_' := allocated_' M2, dtype_' := dtype_' M2\<rparr>"
  have st3: "st3 = st2(this \<mapsto> ?C3)"
    using f deepCopyFrom_fields_result [OF c2 m2, of ?cs] by simp
  then have c3: "st3 this = Some ?C3" by simp
  from deepCopyFrom_window_result [OF c3 w]
  obtain so sm where st4: "st4 = st3(this \<mapsto> ?C3\<lparr>shape_offset_' := so, shape_master_' := sm\<rparr>)"
    by blast
  have cs: "?cs \<longleftrightarrow> copyshape \<and> shape_offset = []" by simp
  have "st4 = st2(this \<mapsto> ?C3\<lparr>shape_offset_' := so, shape_master_' := sm\<rparr>)"
    using st4 st3 by simp
  then show ?thesis
    using t c2 m2 unfolding cs by blast
qed

text \<open>A tensor bound to itself: no tag differs, and the copied fields are its own.\<close>

lemma deepCopyFrom_bound_self:
  assumes "st this = Some C"
    and "deepCopyFrom_bound st this this copyshape shape_offset head_rep = Inr st4"
  shows "\<exists>so sm. st4 = st(this \<mapsto>
           C\<lparr>master_tensor_' := this, shape_offset_' := so, shape_master_' := sm\<rparr>)"
proof -
  let ?C1 = "C\<lparr>master_tensor_' := this\<rparr>"
  let ?st1 = "st(this \<mapsto> ?C1)"
  let ?cs = "if shape_offset \<noteq> [] then False else copyshape"
  from assms(2) obtain st2 st3 where
    t: "deepCopyFrom_tags ?st1 this = Inr st2"
    and f: "deepCopyFrom_fields st2 this this ?cs = Inr st3"
    and w: "deepCopyFrom_window st3 this this shape_offset head_rep = Inr st4"
    by (auto simp add: deepCopyFrom_bound_def deepCopyFrom_reconciled_unfold [where st = st and this = this and C = C, OF assms(1)]
        Let_def andThen_Inr_iff)
  have p: "?st1 this = Some ?C1" "?st1 (master_tensor_' ?C1) = Some ?C1" by simp_all
  have st2: "st2 = ?st1"
    by (rule deepCopyFrom_tags_result(1) [OF p t]) simp
  have "deepCopyFrom_fields ?st1 this this ?cs = Inr ?st1"
    by (simp add: deepCopyFrom_fields_def)
  then have st3: "st3 = ?st1" using f st2 by simp
  then have c3: "st3 this = Some ?C1" by simp
  from deepCopyFrom_window_result [OF c3 w]
  obtain so sm where st4: "st4 = st3(this \<mapsto> ?C1\<lparr>shape_offset_' := so, shape_master_' := sm\<rparr>)"
    by blast
  have "st4 = st(this \<mapsto> ?C1\<lparr>shape_offset_' := so, shape_master_' := sm\<rparr>)"
    using st4 st3 by simp
  then show ?thesis by blast
qed


lemmas exec_defs =
  deepCopyFrom_bound_def deepCopyFrom_reconciled_def setMasterTensor_def
  deepCopyFrom_tags_def deepCopyFrom_fields_def deepCopyFrom_window_def addChildTensor_def
  batch_def head_def sequence_def dimension_def legacyShape_def numAxes_def shape_def
  canonicalAxisIndex_def at_def reshape4_def reshape_def div_int_def quot_def mul_int_def
  chk_def is_int_def INT_MAX_def INT_MIN_def nullptr_def Tensor_ctor_def Let_def


subsection \<open>What the call leaves alone\<close>

lemma deepCopyFrom_tags_frame:
  assumes "st this = Some C" and "st source = Some M" and "this \<noteq> source"
    and "master_tensor_' C = source"
    and "deepCopyFrom_tags st this = Inr st2"
  shows "\<exists>C2 M2. st2 = st(this \<mapsto> C2, source \<mapsto> M2)
           \<and> child_tensors_' C2 = child_tensors_' C \<and> child_tensors_' M2 = child_tensors_' M"
proof -
  have m: "st (master_tensor_' C) = Some M" using assms(2,4) by simp
  consider
    (none) "\<not> (ctype_' C \<noteq> BCTHW \<and> ctype_' C \<noteq> BTHWC \<and> ctype_' C \<noteq> ctype_' M
               \<and> \<not> undiffusion_' C)"
    | (master) "ctype_' C \<noteq> BCTHW \<and> ctype_' C \<noteq> BTHWC \<and> ctype_' C \<noteq> ctype_' M
               \<and> \<not> undiffusion_' C" "transed_' C"
    | (child) "ctype_' C \<noteq> BCTHW \<and> ctype_' C \<noteq> BTHWC \<and> ctype_' C \<noteq> ctype_' M
               \<and> \<not> undiffusion_' C" "\<not> transed_' C"
    by blast
  then show ?thesis
  proof cases
    case none
    have "st2 = st" by (rule deepCopyFrom_tags_result(1) [OF assms(1) m assms(5) none])
    then have "st2 = st(this \<mapsto> C, source \<mapsto> M)"
      using assms(1,2) by (auto simp add: fun_eq_iff)
    then show ?thesis by blast
  next
    case master
    from deepCopyFrom_tags_result(2) [OF assms(1) m assms(5) master]
    obtain b h s d r M3 where
      rs: "reshape4 (M\<lparr>ctype_' := ctype_' C\<rparr>) b h s d = Inr (r, M3)"
      and st2: "st2 = st(master_tensor_' C \<mapsto> M3)"
      by blast
    have "st2 = st(this \<mapsto> C, source \<mapsto> M3)"
      using st2 assms(1,3,4) by (auto simp add: fun_eq_iff)
    moreover have "child_tensors_' M3 = child_tensors_' M"
      using reshape4_Inr(2) [OF rs] by auto
    ultimately show ?thesis by blast
  next
    case child
    from deepCopyFrom_tags_result(3) [OF assms(1) m assms(5) child]
    obtain b h s d r C3 where
      rs: "reshape4 (C\<lparr>ctype_' := ctype_' M\<rparr>) b h s d = Inr (r, C3)"
      and st2: "st2 = st(this \<mapsto> C3)"
      by blast
    have "st2 = st(this \<mapsto> C3, source \<mapsto> M)"
      using st2 assms(2,3) by (auto simp add: fun_eq_iff)
    moreover have "child_tensors_' C3 = child_tensors_' C"
      using reshape4_Inr(2) [OF rs] by auto
    ultimately show ?thesis by blast
  qed
qed

lemma deepCopyFrom_bound_defined:
  assumes "deepCopyFrom_bound st this source copyshape shape_offset head_rep = Inr st4"
  shows "\<exists>C M. st this = Some C \<and> st source = Some M"
proof -
  obtain C where c: "st this = Some C"
    using assms
    by (cases "st this")
       (auto simp add: deepCopyFrom_bound_def deepCopyFrom_reconciled_def setMasterTensor_def
          Let_def)
  let ?st1 = "st(this \<mapsto> C\<lparr>master_tensor_' := source\<rparr>)"
  from assms obtain st2 st3 where
    t: "deepCopyFrom_tags ?st1 this = Inr st2"
    and f: "deepCopyFrom_fields st2 this source
              (if shape_offset \<noteq> [] then False else copyshape) = Inr st3"
    by (auto simp add: deepCopyFrom_bound_def Let_def andThen_Inr_iff
        deepCopyFrom_reconciled_unfold [where st = st and this = this and C = C, OF c])
  show ?thesis
  proof (cases "st source")
    case (Some M)
    then show ?thesis using c by simp
  next
    case None
    then have ne: "this \<noteq> source" using c by auto
    have n1: "?st1 source = None" using None ne by simp
    have "st2 = ?st1"
      using t n1
      by (auto simp add: deepCopyFrom_tags_def andThen_Inr_iff split: if_splits)
    then have "deepCopyFrom_fields st2 this source
                 (if shape_offset \<noteq> [] then False else copyshape) = Inl NullDeref"
      using n1 by (simp add: deepCopyFrom_fields_def)
    then show ?thesis using f by simp
  qed
qed

text \<open>
  Up to the loop, a call changes its receiver and its master, and no list of children.
\<close>

lemma deepCopyFrom_bound_frame:
  assumes "deepCopyFrom_bound st this source copyshape shape_offset head_rep = Inr st4"
  shows "q \<noteq> this \<Longrightarrow> q \<noteq> source \<Longrightarrow> st4 q = st q"
    and "st q = Some t \<Longrightarrow> \<exists>t4. st4 q = Some t4 \<and> child_tensors_' t4 = child_tensors_' t"
    and "st4 q = Some t4 \<Longrightarrow> \<exists>t. st q = Some t \<and> child_tensors_' t4 = child_tensors_' t"
proof -
  from deepCopyFrom_bound_defined [OF assms]
  obtain C M where c: "st this = Some C" and m: "st source = Some M" by blast
  have "(q \<noteq> this \<longrightarrow> q \<noteq> source \<longrightarrow> st4 q = st q)
      \<and> (\<forall>t. st q = Some t \<longrightarrow> (\<exists>t4. st4 q = Some t4 \<and> child_tensors_' t4 = child_tensors_' t))
      \<and> (\<forall>t4. st4 q = Some t4 \<longrightarrow> (\<exists>t. st q = Some t \<and> child_tensors_' t4 = child_tensors_' t))"
  proof (cases "this = source")
    case True
    from deepCopyFrom_bound_self [OF c assms [unfolded True [symmetric]]]
    obtain so sm where
      "st4 = st(this \<mapsto> C\<lparr>master_tensor_' := this, shape_offset_' := so,
                            shape_master_' := sm\<rparr>)"
      by blast
    then show ?thesis using c by auto
  next
    case False
    let ?C1 = "C\<lparr>master_tensor_' := source\<rparr>"
    let ?st1 = "st(this \<mapsto> ?C1)"
    from deepCopyFrom_bound_unfold [OF c m False assms]
    obtain st2 C2 M2 so sm where
      t: "deepCopyFrom_tags ?st1 this = Inr st2"
      and c2: "st2 this = Some C2" and m2: "st2 source = Some M2"
      and st4: "st4 = st2(this \<mapsto>
             C2\<lparr>host_ptr_' := host_ptr_' M2, capacity_' := capacity_' M2,
                count_' := count_' M2,
                shape_' := (if copyshape \<and> shape_offset = [] then shape_' M2
                            else shape_' C2),
                allocated_' := allocated_' M2, dtype_' := dtype_' M2,
                shape_offset_' := so, shape_master_' := sm\<rparr>)"
      by blast
    have p: "?st1 this = Some ?C1" "?st1 source = Some M" "master_tensor_' ?C1 = source"
      using m False by simp_all
    from deepCopyFrom_tags_frame [OF p(1,2) False p(3) t]
    obtain C3 M3 where st2: "st2 = ?st1(this \<mapsto> C3, source \<mapsto> M3)"
      and ch: "child_tensors_' C3 = child_tensors_' ?C1" "child_tensors_' M3 = child_tensors_' M"
      by blast
    have "C2 = C3" using c2 st2 False by simp
    then show ?thesis
      using st4 st2 ch c m False by auto
  qed
  then show "q \<noteq> this \<Longrightarrow> q \<noteq> source \<Longrightarrow> st4 q = st q"
    and "st q = Some t \<Longrightarrow> \<exists>t4. st4 q = Some t4 \<and> child_tensors_' t4 = child_tensors_' t"
    and "st4 q = Some t4 \<Longrightarrow> \<exists>t. st q = Some t \<and> child_tensors_' t4 = child_tensors_' t"
    by blast+
qed

subsection \<open>The loop over the children\<close>

lemma remove_fold:
  assumes "fold (remove_step i) fs (buf, r) = (buf', r')"
    and "\<forall>g\<in>set fs. g < length buf"
  shows "length buf' = length buf \<and> set buf' \<subseteq> set buf \<and> r' \<le> r + length fs"
  using assms
proof (induction fs arbitrary: buf r)
  case Nil
  then show ?case by simp
next
  case (Cons f fs)
  show ?case
  proof (cases "buf ! f \<noteq> buf ! i")
    case True
    then have "remove_step i f (buf, r) = (buf[r := buf ! f], Suc r)"
      by (simp add: remove_step_def)
    then have step: "fold (remove_step i) fs (buf[r := buf ! f], Suc r) = (buf', r')"
      using Cons.prems(1) by simp
    have "\<forall>g\<in>set fs. g < length (buf[r := buf ! f])" using Cons.prems(2) by simp
    from Cons.IH [OF step this]
    have ih: "length buf' = length buf" "set buf' \<subseteq> set (buf[r := buf ! f])"
      "r' \<le> Suc r + length fs"
      by simp_all
    have "buf ! f \<in> set buf" using Cons.prems(2) by simp
    then have "set (buf[r := buf ! f]) \<subseteq> set buf"
      using set_update_subset_insert [of buf r "buf ! f"] by auto
    then show ?thesis using ih by auto
  next
    case False
    then have "remove_step i f (buf, r) = (buf, r)"
      by (simp add: remove_step_def)
    then have step: "fold (remove_step i) fs (buf, r) = (buf', r')"
      using Cons.prems(1) by simp
    have "\<forall>g\<in>set fs. g < length buf" using Cons.prems(2) by simp
    from Cons.IH [OF step this] show ?thesis by auto
  qed
qed

lemma std_find_le: "std_find buf sz i \<le> sz"
proof (cases "filter (\<lambda>j. buf ! j = buf ! i) [0..<sz]")
  case Nil
  then show ?thesis by (simp add: std_find_def)
next
  case (Cons j js)
  then have "j \<in> set (filter (\<lambda>j. buf ! j = buf ! i) [0..<sz])" by simp
  then have "j < sz" by simp
  then show ?thesis using Cons by (simp add: std_find_def)
qed

text \<open>\<open>std::remove\<close> moves elements of the buffer, and \<open>erase\<close> never grows the vector.\<close>

lemma std_remove_buffer:
  assumes "std_remove buf sz i = (buf', sz')" and "sz \<le> length buf"
  shows "length buf' = length buf" and "set buf' \<subseteq> set buf" and "sz' \<le> sz"
proof -
  let ?j = "std_find buf sz i"
  have le: "?j \<le> sz" by (rule std_find_le)
  have "length buf' = length buf \<and> set buf' \<subseteq> set buf \<and> sz' \<le> sz"
  proof (cases "?j = sz")
    case True
    then show ?thesis using assms(1) by (simp add: std_remove_def)
  next
    case False
    then have f: "fold (remove_step i) [Suc ?j..<sz] (buf, ?j) = (buf', sz')"
      using assms(1) by (simp add: std_remove_def Let_def)
    have "\<forall>f\<in>set [Suc ?j..<sz]. f < length buf" using assms(2) by simp
    from remove_fold [OF f this] le False show ?thesis by auto
  qed
  then show "length buf' = length buf" and "set buf' \<subseteq> set buf" and "sz' \<le> sz"
    by simp_all
qed

text \<open>
  A set of tensors that holds the children of each of its members: nested calls stay
  inside it.
\<close>

lemma children_loop_frame:
  assumes call: "\<And>st q st1. q \<in> R \<Longrightarrow> closed_under_children R st
                   \<Longrightarrow> call st q = Some (Inr st1)
                   \<Longrightarrow> closed_under_children R st1
                       \<and> (\<forall>x. x \<notin> R \<and> x \<noteq> source \<longrightarrow> st1 x = st x)"
    and "children_loop call this k buf sz i st = Some (Inr st')"
    and "set buf \<subseteq> R" and "i + k \<le> length buf" and "sz \<le> length buf"
    and "closed_under_children R st"
  shows "closed_under_children R st'
       \<and> (\<forall>x. x \<notin> R \<and> x \<noteq> source \<and> x \<noteq> this \<longrightarrow> st' x = st x)
       \<and> (this \<notin> R \<and> this \<noteq> source \<longrightarrow>
            (\<forall>t0. st this = Some t0 \<longrightarrow> (\<exists>cs. st' this = Some (t0\<lparr>child_tensors_' := cs\<rparr>))))"
  using assms(2-)
proof (induction k arbitrary: buf sz i st)
  case 0
  then have eq: "st' = st" by simp
  have same: "\<exists>cs. st this = Some (t0\<lparr>child_tensors_' := cs\<rparr>)" if "st this = Some t0" for t0
    using that by (intro exI [where x = "child_tensors_' t0"]) simp
  show ?case unfolding eq using "0.prems"(5) same by blast
next
  case (Suc k)
  from Suc.prems(1) obtain st1 where c1: "call st (buf ! i) = Some (Inr st1)"
    by (auto split: option.splits sum.splits)
  from Suc.prems(1) c1 obtain t where t: "st1 this = Some t"
    by (auto split: option.splits)
  from Suc.prems(1) c1 t have same: "child_tensors_' t = take sz buf"
    by (auto split: if_splits)
  obtain buf' sz' where rm: "std_remove buf sz i = (buf', sz')"
    by (cases "std_remove buf sz i")
  let ?st2 = "st1(this \<mapsto> t\<lparr>child_tensors_' := take sz' buf'\<rparr>)"
  have rest: "children_loop call this k buf' sz' (Suc i) ?st2 = Some (Inr st')"
    using Suc.prems(1) c1 t same rm by simp
  note b = std_remove_buffer [OF rm Suc.prems(4)]
  have "i < length buf" using Suc.prems(3) by simp
  then have inR: "buf ! i \<in> R" using Suc.prems(2) by auto
  from call [OF inR Suc.prems(5) c1]
  have cl1: "closed_under_children R st1"
    and fr1: "\<forall>x. x \<notin> R \<and> x \<noteq> source \<longrightarrow> st1 x = st x"
    by simp_all
  have sub: "set (take sz' buf') \<subseteq> R"
    using set_take_subset [of sz' buf'] b(2) Suc.prems(2) by blast
  have cl2: "closed_under_children R ?st2"
    using cl1 sub by (auto simp add: closed_under_children_def)
  have p: "set buf' \<subseteq> R" "Suc i + k \<le> length buf'" "sz' \<le> length buf'"
    using b Suc.prems(2,3,4) by auto
  from Suc.IH [OF rest p cl2]
  have ih1: "closed_under_children R st'"
    and ih2: "\<forall>x. x \<notin> R \<and> x \<noteq> source \<and> x \<noteq> this \<longrightarrow> st' x = ?st2 x"
    and ih3: "this \<notin> R \<and> this \<noteq> source \<longrightarrow>
            (\<forall>t0. ?st2 this = Some t0 \<longrightarrow> (\<exists>cs. st' this = Some (t0\<lparr>child_tensors_' := cs\<rparr>)))"
    by simp_all
  have r2: "\<forall>x. x \<notin> R \<and> x \<noteq> source \<and> x \<noteq> this \<longrightarrow> st' x = st x"
    using ih2 fr1 by simp
  have r3: "\<exists>cs. st' this = Some (t0\<lparr>child_tensors_' := cs\<rparr>)"
    if out: "this \<notin> R \<and> this \<noteq> source" and t0: "st this = Some t0" for t0
  proof -
    have "st1 this = st this" using fr1 out by simp
    then have "t = t0" using t t0 by simp
    then have "?st2 this = Some (t0\<lparr>child_tensors_' := take sz' buf'\<rparr>)" by simp
    with ih3 out obtain cs where
      "st' this = Some (t0\<lparr>child_tensors_' := take sz' buf', child_tensors_' := cs\<rparr>)"
      by blast
    then show ?thesis by auto
  qed
  show ?case using ih1 r2 r3 by blast
qed

text \<open>
  A call changes tensors of such a set only, and the master; the set still holds the
  children of its members afterwards.
\<close>

lemma deepCopyFrom_frame:
  assumes "this \<in> R" and "closed_under_children R st"
    and "deepCopyFrom depth st this source copyshape shape_offset head_rep = Some (Inr st')"
  shows "closed_under_children R st' \<and> (\<forall>x. x \<notin> R \<and> x \<noteq> source \<longrightarrow> st' x = st x)"
  using assms
proof (induction depth arbitrary: st this copyshape st')
  case 0
  then show ?case by simp
next
  case (Suc depth)
  let ?call = "\<lambda>st' child_tensor.
                 deepCopyFrom depth st' child_tensor source False shape_offset head_rep"
  from Suc.prems(3) obtain st4 where
    b: "deepCopyFrom_bound st this source copyshape shape_offset head_rep = Inr st4"
    by (auto split: sum.splits)
  from Suc.prems(3) b obtain c where c: "st4 this = Some c"
    by (auto split: option.splits)
  from Suc.prems(3) b c obtain st5 where
    l: "children_loop ?call this (length (child_tensors_' c)) (child_tensors_' c)
          (length (child_tensors_' c)) 0 st4 = Some (Inr st5)"
    and a: "addChildTensor st5 source this = Inr st'"
    by (auto split: option.splits sum.splits)
  note fr = deepCopyFrom_bound_frame [OF b]
  have cl4: "closed_under_children R st4"
    unfolding closed_under_children_def
  proof (intro ballI allI impI)
    fix q t4 assume q: "q \<in> R" and "st4 q = Some t4"
    from fr(3) [OF this(2)] obtain t where "st q = Some t"
      and "child_tensors_' t4 = child_tensors_' t" by blast
    then show "set (child_tensors_' t4) \<subseteq> R"
      using Suc.prems(2) q by (auto simp add: closed_under_children_def)
  qed
  have sub: "set (child_tensors_' c) \<subseteq> R"
    using cl4 c Suc.prems(1) by (auto simp add: closed_under_children_def)
  have "closed_under_children R st5
       \<and> (\<forall>x. x \<notin> R \<and> x \<noteq> source \<and> x \<noteq> this \<longrightarrow> st5 x = st4 x)
       \<and> (this \<notin> R \<and> this \<noteq> source \<longrightarrow>
            (\<forall>t0. st4 this = Some t0 \<longrightarrow> (\<exists>cs. st5 this = Some (t0\<lparr>child_tensors_' := cs\<rparr>))))"
    by (rule children_loop_frame [where call = ?call, OF _ l sub _ _ cl4])
       (use Suc.IH in \<open>simp_all\<close>)
  then have cl5: "closed_under_children R st5"
    and fr5: "\<forall>x. x \<notin> R \<and> x \<noteq> source \<and> x \<noteq> this \<longrightarrow> st5 x = st4 x"
    by simp_all
  from a obtain m where m: "st5 source = Some m"
    and st': "st' = st5(source \<mapsto> m\<lparr>child_tensors_' := child_tensors_' m @ [this]\<rparr>)"
    by (cases "st5 source") (auto simp add: addChildTensor_def)
  have "closed_under_children R st'"
    using cl5 m Suc.prems(1) unfolding st' by (auto simp add: closed_under_children_def)
  moreover have "\<forall>x. x \<notin> R \<and> x \<noteq> source \<longrightarrow> st' x = st x"
    using fr5 fr(1) Suc.prems(1) unfolding st' by auto
  ultimately show ?case by simp
qed

text \<open>
  A receiver that is neither its own master nor among its own descendants returns from
  the call as the loop found it, but for its list of children.
\<close>

lemma deepCopyFrom_keeps_bound:
  assumes "this \<notin> R" and "this \<noteq> source" and "closed_under_children R st"
    and "st this = Some C" and "set (child_tensors_' C) \<subseteq> R"
    and "deepCopyFrom depth st this source copyshape shape_offset head_rep = Some (Inr st')"
  shows "\<exists>st4 C4 cs. deepCopyFrom_bound st this source copyshape shape_offset head_rep = Inr st4
           \<and> st4 this = Some C4 \<and> st' this = Some (C4\<lparr>child_tensors_' := cs\<rparr>)"
proof (cases depth)
  case 0
  then show ?thesis using assms(6) by simp
next
  case (Suc n)
  let ?call = "\<lambda>st' child_tensor.
                 deepCopyFrom n st' child_tensor source False shape_offset head_rep"
  from assms(6) obtain st4 where
    b: "deepCopyFrom_bound st this source copyshape shape_offset head_rep = Inr st4"
    unfolding Suc by (auto split: sum.splits)
  from assms(6) b obtain c where c: "st4 this = Some c"
    unfolding Suc by (auto split: option.splits)
  from assms(6) b c obtain st5 where
    l: "children_loop ?call this (length (child_tensors_' c)) (child_tensors_' c)
          (length (child_tensors_' c)) 0 st4 = Some (Inr st5)"
    and a: "addChildTensor st5 source this = Inr st'"
    unfolding Suc by (auto split: option.splits sum.splits)
  note fr = deepCopyFrom_bound_frame [OF b]
  have cl4: "closed_under_children R st4"
    unfolding closed_under_children_def
  proof (intro ballI allI impI)
    fix q t4 assume q: "q \<in> R" and "st4 q = Some t4"
    from fr(3) [OF this(2)] obtain t where "st q = Some t"
      and "child_tensors_' t4 = child_tensors_' t" by blast
    then show "set (child_tensors_' t4) \<subseteq> R"
      using assms(3) q by (auto simp add: closed_under_children_def)
  qed
  from fr(2) [OF assms(4)] c have "child_tensors_' c = child_tensors_' C" by simp
  then have sub: "set (child_tensors_' c) \<subseteq> R" using assms(5) by simp
  have "closed_under_children R st5
       \<and> (\<forall>x. x \<notin> R \<and> x \<noteq> source \<and> x \<noteq> this \<longrightarrow> st5 x = st4 x)
       \<and> (this \<notin> R \<and> this \<noteq> source \<longrightarrow>
            (\<forall>t0. st4 this = Some t0 \<longrightarrow> (\<exists>cs. st5 this = Some (t0\<lparr>child_tensors_' := cs\<rparr>))))"
    by (rule children_loop_frame [where call = ?call, OF _ l sub _ _ cl4])
       (use deepCopyFrom_frame in \<open>simp_all\<close>)
  then obtain cs where "st5 this = Some (c\<lparr>child_tensors_' := cs\<rparr>)"
    using assms(1,2) c by blast
  moreover have "st' this = st5 this"
    using a assms(2) by (cases "st5 source") (auto simp add: addChildTensor_def)
  ultimately show ?thesis using b c by auto
qed

lemma reshape4_length:
  "reshape4 t b h s d = Inr (r, t') \<Longrightarrow> length (shape_' t') = 4"
  by (auto dest!: reshape4_Inr(2) split: ChlType.splits)

lemma reshape4_frame:
  assumes "reshape4 t b h s d = Inr (r, t')"
  shows "host_ptr_' t' = host_ptr_' t" "allocated_' t' = allocated_' t"
    "dtype_' t' = dtype_' t"
  using reshape4_Inr(2) [OF assms] by auto


text \<open>
  C9, as the code has it. In a call of \<open>deepCopyFrom\<close> with a non-empty \<open>shape_offset\<close>,
  whatever \<open>copyshape\<close> is, when the call reaches its loop over the receiver's children
  the master's \<open>shape_\<close> has not been copied: the child's \<open>shape_\<close> is as it was, unless
  the reconciliation of the tags made the child adopt the master's tag (4-axis child tag
  different from the master's, child neither transposed nor \<open>undiffusion_\<close>); then
  \<open>shape_\<close> holds the child's own four logical extents in the order of the master's tag.
  The buffer pointer, capacity, count, allocation flag and dtype of the child are the
  master's; the master's buffer pointer, allocation flag and dtype are the ones it had
  before the call, and so are its capacity and count unless the reconciliation reshaped
  the master. A receiver that is neither its own master nor among its own descendants
  returns from the call with these fields: the loop changes its list of children only.
\<close>

theorem deepCopyFrom_offset_keeps_shape:
  assumes "shape_offset \<noteq> []"
    and "st this = Some C" and "st source = Some M"
    and "deepCopyFrom_bound st this source copyshape shape_offset head_rep = Inr st4"
  shows "\<exists>C4 M4. st4 this = Some C4 \<and> st4 source = Some M4
           \<and> host_ptr_' C4 = host_ptr_' M4 \<and> capacity_' C4 = capacity_' M4
           \<and> count_' C4 = count_' M4 \<and> allocated_' C4 = allocated_' M4
           \<and> dtype_' C4 = dtype_' M4
           \<and> host_ptr_' M4 = host_ptr_' M \<and> allocated_' M4 = allocated_' M
           \<and> dtype_' M4 = dtype_' M
           \<and> (\<not> (ctype_' C \<noteq> BCTHW \<and> ctype_' C \<noteq> BTHWC \<and> ctype_' C \<noteq> ctype_' M
                    \<and> \<not> undiffusion_' C \<and> transed_' C)
                \<longrightarrow> capacity_' M4 = capacity_' M \<and> count_' M4 = count_' M)
           \<and> (\<not> (ctype_' C \<noteq> BCTHW \<and> ctype_' C \<noteq> BTHWC \<and> ctype_' C \<noteq> ctype_' M
                    \<and> \<not> undiffusion_' C \<and> \<not> transed_' C)
                \<longrightarrow> shape_' C4 = shape_' C)
           \<and> (ctype_' C \<noteq> BCTHW \<and> ctype_' C \<noteq> BTHWC \<and> ctype_' C \<noteq> ctype_' M
                    \<and> \<not> undiffusion_' C \<and> \<not> transed_' C
                \<longrightarrow> ctype_' C4 = ctype_' M
                  \<and> (\<exists>b h s d. batch C = Inr b \<and> head C = Inr h \<and> sequence C = Inr s
                        \<and> dimension C = Inr d
                        \<and> shape_' C4 = (case ctype_' M of BSHD \<Rightarrow> [b, s, h, d]
                                        | BHDS \<Rightarrow> [b, h, d, s] | _ \<Rightarrow> [s, b, h, d])
                        \<and> batch C4 = Inr b \<and> head C4 = Inr h \<and> sequence C4 = Inr s
                        \<and> dimension C4 = Inr d))
           \<and> (\<forall>depth st' R.
                  this \<notin> R \<and> this \<noteq> source \<and> closed_under_children R st
                  \<and> set (child_tensors_' C) \<subseteq> R
                  \<and> deepCopyFrom depth st this source copyshape shape_offset head_rep
                      = Some (Inr st')
                \<longrightarrow> (\<exists>cs. st' this = Some (C4\<lparr>child_tensors_' := cs\<rparr>)))"
proof -
  have final: "\<exists>cs. st' this = Some (C4\<lparr>child_tensors_' := cs\<rparr>)"
    if c4: "st4 this = Some C4"
      and h: "this \<notin> R \<and> this \<noteq> source \<and> closed_under_children R st
                  \<and> set (child_tensors_' C) \<subseteq> R
                  \<and> deepCopyFrom depth st this source copyshape shape_offset head_rep
                      = Some (Inr st')"
    for C4 depth st' R
  proof -
    from h have h': "this \<notin> R" "this \<noteq> source" "closed_under_children R st"
      "set (child_tensors_' C) \<subseteq> R"
      "deepCopyFrom depth st this source copyshape shape_offset head_rep = Some (Inr st')"
      by simp_all
    from deepCopyFrom_keeps_bound [OF h'(1,2,3) assms(2) h'(4,5)]
    show ?thesis using assms(4) c4 by auto
  qed
  show ?thesis
  proof (cases "this = source")
    case True
    then have cm: "M = C" using assms(2,3) by simp
    from deepCopyFrom_bound_self [OF assms(2) assms(4) [unfolded True [symmetric]]]
    obtain so sm where
      st4: "st4 = st(this \<mapsto> C\<lparr>master_tensor_' := this, shape_offset_' := so,
                                   shape_master_' := sm\<rparr>)"
      by blast
    let ?C4 = "C\<lparr>master_tensor_' := this, shape_offset_' := so, shape_master_' := sm\<rparr>"
    have c4: "st4 this = Some ?C4" "st4 source = Some ?C4" using st4 True by simp_all
    show ?thesis
      by (rule exI [where x = ?C4], rule exI [where x = ?C4])
         (intro conjI impI allI c4; (simp add: cm True)?)
  next
    case ne: False
    let ?C1 = "C\<lparr>master_tensor_' := source\<rparr>"
    let ?st1 = "st(this \<mapsto> ?C1)"
    from deepCopyFrom_bound_unfold [OF assms(2,3) ne assms(4)]
    obtain st2 C2 M2 so sm where
      t: "deepCopyFrom_tags ?st1 this = Inr st2"
      and c2: "st2 this = Some C2" and m2: "st2 source = Some M2"
      and st4: "st4 = st2(this \<mapsto>
               C2\<lparr>host_ptr_' := host_ptr_' M2, capacity_' := capacity_' M2,
                  count_' := count_' M2,
                  shape_' := (if copyshape \<and> shape_offset = [] then shape_' M2
                              else shape_' C2),
                  allocated_' := allocated_' M2, dtype_' := dtype_' M2,
                  shape_offset_' := so, shape_master_' := sm\<rparr>)"
      by blast
    let ?C4 = "C2\<lparr>host_ptr_' := host_ptr_' M2, capacity_' := capacity_' M2,
                  count_' := count_' M2, shape_' := shape_' C2,
                  allocated_' := allocated_' M2, dtype_' := dtype_' M2,
                  shape_offset_' := so, shape_master_' := sm\<rparr>"
    have r1: "st4 this = Some ?C4" using st4 assms(1) by simp
    have r2: "st4 source = Some M2" using st4 m2 ne by simp
    have fin: "\<forall>depth st' R.
                  this \<notin> R \<and> this \<noteq> source \<and> closed_under_children R st
                  \<and> set (child_tensors_' C) \<subseteq> R
                  \<and> deepCopyFrom depth st this source copyshape shape_offset head_rep
                      = Some (Inr st')
                \<longrightarrow> (\<exists>cs. st' this = Some (?C4\<lparr>child_tensors_' := cs\<rparr>))"
      using final [OF r1] by blast
    have copied: "host_ptr_' ?C4 = host_ptr_' M2" "capacity_' ?C4 = capacity_' M2"
      "count_' ?C4 = count_' M2" "allocated_' ?C4 = allocated_' M2"
      "dtype_' ?C4 = dtype_' M2"
      by simp_all
    have s1: "?st1 this = Some ?C1" "?st1 (master_tensor_' ?C1) = Some M"
      using assms(3) ne by simp_all
    have accC4: "batch ?C4 = batch C2" "head ?C4 = head C2" "sequence ?C4 = sequence C2"
      "dimension ?C4 = dimension C2"
      by (rule accessors_cong; simp)+
    have accC: "batch ?C1 = batch C" "head ?C1 = head C" "sequence ?C1 = sequence C"
      "dimension ?C1 = dimension C"
      by (rule accessors_cong; simp)+
    consider
      (none) "\<not> (ctype_' ?C1 \<noteq> BCTHW \<and> ctype_' ?C1 \<noteq> BTHWC \<and> ctype_' ?C1 \<noteq> ctype_' M
                 \<and> \<not> undiffusion_' ?C1)"
      | (master) "ctype_' ?C1 \<noteq> BCTHW \<and> ctype_' ?C1 \<noteq> BTHWC \<and> ctype_' ?C1 \<noteq> ctype_' M
                 \<and> \<not> undiffusion_' ?C1" "transed_' ?C1"
      | (child) "ctype_' ?C1 \<noteq> BCTHW \<and> ctype_' ?C1 \<noteq> BTHWC \<and> ctype_' ?C1 \<noteq> ctype_' M
                 \<and> \<not> undiffusion_' ?C1" "\<not> transed_' ?C1"
      by blast
    then show ?thesis
    proof cases
      case none
      have "st2 = ?st1" by (rule deepCopyFrom_tags_result(1) [OF s1 t none])
      then have "st2 this = Some ?C1" and "st2 source = Some M" using ne assms(3) by simp_all
      then have eq: "C2 = ?C1" "M2 = M" using c2 m2 by simp_all
      have nadopt: "\<not> (ctype_' C \<noteq> BCTHW \<and> ctype_' C \<noteq> BTHWC \<and> ctype_' C \<noteq> ctype_' M
                    \<and> \<not> undiffusion_' C \<and> \<not> transed_' C)"
        using none by auto
      have sh: "shape_' ?C4 = shape_' C" unfolding eq by simp
      have same: "host_ptr_' M2 = host_ptr_' M" "allocated_' M2 = allocated_' M"
        "dtype_' M2 = dtype_' M" "capacity_' M2 = capacity_' M" "count_' M2 = count_' M"
        unfolding eq by simp_all
      show ?thesis
        by (rule exI [where x = ?C4], rule exI [where x = M2])
           (intro conjI impI r1 r2 copied same sh fin; use nadopt in simp)
    next
      case master
      from deepCopyFrom_tags_result(2) [OF s1 t master]
      obtain b h s d r M3 where
        rs: "reshape4 (M\<lparr>ctype_' := ctype_' ?C1\<rparr>) b h s d = Inr (r, M3)"
        and st2: "st2 = ?st1(master_tensor_' ?C1 \<mapsto> M3)"
        by blast
      have st2': "st2 = ?st1(source \<mapsto> M3)" using st2 by simp
      have "st2 this = Some ?C1" and "st2 source = Some M3"
        unfolding st2' using ne by simp_all
      then have eq: "C2 = ?C1" "M2 = M3" using c2 m2 by simp_all
      note fr = reshape4_frame [OF rs]
      have nadopt: "\<not> (ctype_' C \<noteq> BCTHW \<and> ctype_' C \<noteq> BTHWC \<and> ctype_' C \<noteq> ctype_' M
                    \<and> \<not> undiffusion_' C \<and> \<not> transed_' C)"
        using master by auto
      have reshaped: "ctype_' C \<noteq> BCTHW \<and> ctype_' C \<noteq> BTHWC \<and> ctype_' C \<noteq> ctype_' M
                    \<and> \<not> undiffusion_' C \<and> transed_' C"
        using master by auto
      have sh: "shape_' ?C4 = shape_' C" unfolding eq by simp
      have same: "host_ptr_' M2 = host_ptr_' M" "allocated_' M2 = allocated_' M"
        "dtype_' M2 = dtype_' M"
        unfolding eq using fr by simp_all
      show ?thesis
        by (rule exI [where x = ?C4], rule exI [where x = M2])
           (intro conjI impI r1 r2 copied same sh fin; use nadopt reshaped in simp)
    next
      case child
      from deepCopyFrom_tags_result(3) [OF s1 t child]
      obtain b h s d r C3 where
        acc: "batch ?C1 = Inr b" "head ?C1 = Inr h" "sequence ?C1 = Inr s"
          "dimension ?C1 = Inr d"
        and rs: "reshape4 (?C1\<lparr>ctype_' := ctype_' M\<rparr>) b h s d = Inr (r, C3)"
        and st2: "st2 = ?st1(this \<mapsto> C3)"
        by blast
      have "st2 this = Some C3" and "st2 source = Some M"
        unfolding st2 using ne assms(3) by simp_all
      then have eq: "C2 = C3" "M2 = M" using c2 m2 by simp_all
      note ex = reshape4_extents [OF rs]
      have shp: "shape_' C3 = (case ctype_' M of BSHD \<Rightarrow> [b, s, h, d]
                                | BHDS \<Rightarrow> [b, h, d, s] | _ \<Rightarrow> [s, b, h, d])"
        using reshape4_Inr(2) [OF rs] by auto
      have ext: "\<exists>b h s d. batch C = Inr b \<and> head C = Inr h \<and> sequence C = Inr s
                        \<and> dimension C = Inr d
                        \<and> shape_' ?C4 = (case ctype_' M of BSHD \<Rightarrow> [b, s, h, d]
                                        | BHDS \<Rightarrow> [b, h, d, s] | _ \<Rightarrow> [s, b, h, d])
                        \<and> batch ?C4 = Inr b \<and> head ?C4 = Inr h \<and> sequence ?C4 = Inr s
                        \<and> dimension ?C4 = Inr d"
        apply (rule exI [where x = b], rule exI [where x = h], rule exI [where x = s],
            rule exI [where x = d])
        using accC4 ex(1-4) acc accC shp unfolding eq by simp
      have tag: "ctype_' ?C4 = ctype_' M" using ex(5) unfolding eq by simp
      have adopt: "ctype_' C \<noteq> BCTHW \<and> ctype_' C \<noteq> BTHWC \<and> ctype_' C \<noteq> ctype_' M
                      \<and> \<not> undiffusion_' C \<and> \<not> transed_' C"
        using child by auto
      have same: "host_ptr_' M2 = host_ptr_' M" "allocated_' M2 = allocated_' M"
        "dtype_' M2 = dtype_' M" "capacity_' M2 = capacity_' M" "count_' M2 = count_' M"
        unfolding eq by simp_all
      show ?thesis
        by (rule exI [where x = ?C4], rule exI [where x = M2])
           (intro conjI impI r1 r2 copied same ext tag fin; use adopt in simp)
    qed
  qed
qed

lemmas loop_defs = std_remove_def std_find_def remove_step_def deref_def

theorem deepCopyFrom_offset_keeps_shape_witness:
  "deepCopyFrom_bound
     (three_tensors (bshd_child\<lparr>child_tensors_' := [48]\<rparr>) bshd_child bshd_master)
     16 32 True [0, 0, 0, 0] 1 =
     Inr (three_tensors
            (bshd_child\<lparr>child_tensors_' := [48], master_tensor_' := 32, host_ptr_' := 4096,
                        allocated_' := 1, shape_offset_' := [0, 0, 0, 0],
                        shape_master_' := [1, 3, 2, 4]\<rparr>)
            bshd_child bshd_master)
   \<and> deepCopyFrom 2
       (three_tensors (bshd_child\<lparr>child_tensors_' := [48]\<rparr>) bshd_child bshd_master)
       16 32 True [0, 0, 0, 0] 1 =
       Some (Inr (three_tensors
            (bshd_child\<lparr>master_tensor_' := 32, host_ptr_' := 4096, allocated_' := 1,
                        shape_offset_' := [0, 0, 0, 0], shape_master_' := [1, 3, 2, 4]\<rparr>)
            (bshd_child\<lparr>master_tensor_' := 32, host_ptr_' := 4096, allocated_' := 1,
                        shape_offset_' := [0, 0, 0, 0], shape_master_' := [1, 3, 2, 4]\<rparr>)
            (bshd_master\<lparr>child_tensors_' := [48, 16]\<rparr>)))
   \<and> (\<exists>C4 cs.
         three_tensors
            (bshd_child\<lparr>master_tensor_' := 32, host_ptr_' := 4096, allocated_' := 1,
                        shape_offset_' := [0, 0, 0, 0], shape_master_' := [1, 3, 2, 4]\<rparr>)
            (bshd_child\<lparr>master_tensor_' := 32, host_ptr_' := 4096, allocated_' := 1,
                        shape_offset_' := [0, 0, 0, 0], shape_master_' := [1, 3, 2, 4]\<rparr>)
            (bshd_master\<lparr>child_tensors_' := [48, 16]\<rparr>) 16
           = Some (C4\<lparr>child_tensors_' := cs\<rparr>)
       \<and> shape_' C4 = shape_' bshd_child \<and> host_ptr_' C4 = host_ptr_' bshd_master
       \<and> capacity_' C4 = capacity_' bshd_master \<and> count_' C4 = count_' bshd_master
       \<and> allocated_' C4 = allocated_' bshd_master \<and> dtype_' C4 = dtype_' bshd_master)"
proof -
  let ?S = "three_tensors (bshd_child\<lparr>child_tensors_' := [48]\<rparr>) bshd_child bshd_master"
  let ?S4 = "three_tensors
            (bshd_child\<lparr>child_tensors_' := [48], master_tensor_' := 32, host_ptr_' := 4096,
                        allocated_' := 1, shape_offset_' := [0, 0, 0, 0],
                        shape_master_' := [1, 3, 2, 4]\<rparr>)
            bshd_child bshd_master"
  let ?S' = "three_tensors
            (bshd_child\<lparr>master_tensor_' := 32, host_ptr_' := 4096, allocated_' := 1,
                        shape_offset_' := [0, 0, 0, 0], shape_master_' := [1, 3, 2, 4]\<rparr>)
            (bshd_child\<lparr>master_tensor_' := 32, host_ptr_' := 4096, allocated_' := 1,
                        shape_offset_' := [0, 0, 0, 0], shape_master_' := [1, 3, 2, 4]\<rparr>)
            (bshd_master\<lparr>child_tensors_' := [48, 16]\<rparr>)"
  have bound: "deepCopyFrom_bound ?S 16 32 True [0, 0, 0, 0] 1 = Inr ?S4"
    by (simp add: three_tensors_def bshd_child_def bshd_master_def exec_defs loop_defs
        fun_eq_iff)
  have run: "deepCopyFrom 2 ?S 16 32 True [0, 0, 0, 0] 1 = Some (Inr ?S')"
    apply (simp only: numeral_2_eq_2)
    apply (simp add: three_tensors_def bshd_child_def bshd_master_def exec_defs loop_defs
        fun_eq_iff)
    done
  have pre: "[0, 0, 0, 0] \<noteq> ([] :: int list)"
    "?S 16 = Some (bshd_child\<lparr>child_tensors_' := [48]\<rparr>)"
    "?S 32 = Some bshd_master"
    by (simp_all add: three_tensors_def)
  have tags: "ctype_' (bshd_child\<lparr>child_tensors_' := [48]\<rparr>) = ctype_' bshd_master"
    by (simp add: bshd_child_def bshd_master_def)
  have closed: "(16 :: ptr) \<notin> {48} \<and> (16 :: ptr) \<noteq> 32 \<and> closed_under_children {48} ?S
      \<and> set (child_tensors_' (bshd_child\<lparr>child_tensors_' := [48]\<rparr>)) \<subseteq> {48}"
    by (simp add: closed_under_children_def three_tensors_def bshd_child_def Tensor_ctor_def)
  from deepCopyFrom_offset_keeps_shape [OF pre bound]
  obtain C4 M4 where
    c4: "?S4 16 = Some C4" and m4: "?S4 32 = Some M4"
    and copied: "host_ptr_' C4 = host_ptr_' M4" "capacity_' C4 = capacity_' M4"
      "count_' C4 = count_' M4" "allocated_' C4 = allocated_' M4" "dtype_' C4 = dtype_' M4"
    and sh: "shape_' C4 = shape_' (bshd_child\<lparr>child_tensors_' := [48]\<rparr>)"
    and fin: "\<forall>depth st' R.
                  16 \<notin> R \<and> (16 :: ptr) \<noteq> 32 \<and> closed_under_children R ?S
                  \<and> set (child_tensors_' (bshd_child\<lparr>child_tensors_' := [48]\<rparr>)) \<subseteq> R
                  \<and> deepCopyFrom depth ?S 16 32 True [0, 0, 0, 0] 1 = Some (Inr st')
                \<longrightarrow> (\<exists>cs. st' 16 = Some (C4\<lparr>child_tensors_' := cs\<rparr>))"
    using tags by auto
  from fin closed run obtain cs where last: "?S' 16 = Some (C4\<lparr>child_tensors_' := cs\<rparr>)"
    by blast
  have "M4 = bshd_master" using m4 by (simp add: three_tensors_def)
  then have "shape_' C4 = shape_' bshd_child \<and> host_ptr_' C4 = host_ptr_' bshd_master
       \<and> capacity_' C4 = capacity_' bshd_master \<and> count_' C4 = count_' bshd_master
       \<and> allocated_' C4 = allocated_' bshd_master \<and> dtype_' C4 = dtype_' bshd_master"
    using copied sh by simp
  with last have "\<exists>C4 cs. ?S' 16 = Some (C4\<lparr>child_tensors_' := cs\<rparr>)
       \<and> shape_' C4 = shape_' bshd_child \<and> host_ptr_' C4 = host_ptr_' bshd_master
       \<and> capacity_' C4 = capacity_' bshd_master \<and> count_' C4 = count_' bshd_master
       \<and> allocated_' C4 = allocated_' bshd_master \<and> dtype_' C4 = dtype_' bshd_master"
    by blast
  then show ?thesis using bound run by blast
qed

text \<open>
  C9 as stated fails when the reconciliation reshapes the child: a BSHD child with
  \<open>shape_ = [1, 2, 3, 4]\<close> bound with an offset vector to a BHDS master has
  \<open>shape_ = [1, 3, 4, 2]\<close> when the call reaches the loop, and when it returns.
\<close>

theorem deepCopyFrom_offset_keeps_shape_counterexample:
  "deepCopyFrom_bound (two_tensors bshd_child bhds_master) 16 32 True [0, 0, 0, 0] 1 =
     Inr (two_tensors
            (bshd_child\<lparr>ctype_' := BHDS, shape_' := [1, 3, 4, 2], master_tensor_' := 32,
                        host_ptr_' := 4096, capacity_' := 96, count_' := 96,
                        allocated_' := 1, shape_offset_' := [0, 0, 0, 0],
                        shape_master_' := [1, 3, 8, 4]\<rparr>)
            bhds_master)
   \<and> deepCopyFrom 1 (two_tensors bshd_child bhds_master) 16 32 True [0, 0, 0, 0] 1 =
     Some (Inr (two_tensors
            (bshd_child\<lparr>ctype_' := BHDS, shape_' := [1, 3, 4, 2], master_tensor_' := 32,
                        host_ptr_' := 4096, capacity_' := 96, count_' := 96,
                        allocated_' := 1, shape_offset_' := [0, 0, 0, 0],
                        shape_master_' := [1, 3, 8, 4]\<rparr>)
            (bhds_master\<lparr>child_tensors_' := [16]\<rparr>)))
   \<and> shape_' bshd_child = [1, 2, 3, 4]
   \<and> shape_' (bshd_child\<lparr>ctype_' := BHDS, shape_' := [1, 3, 4, 2], master_tensor_' := 32,
                        host_ptr_' := 4096, capacity_' := 96, count_' := 96,
                        allocated_' := 1, shape_offset_' := [0, 0, 0, 0],
                        shape_master_' := [1, 3, 8, 4]\<rparr>) = [1, 3, 4, 2]"
  by (simp add: two_tensors_def bshd_child_def bhds_master_def exec_defs loop_defs fun_eq_iff)

subsection \<open>Calls that return\<close>

lemma prod_list_ge1: "\<forall>x\<in>set xs. (1::int) \<le> x \<Longrightarrow> 1 \<le> prod_list xs"
proof (induction xs)
  case Nil
  then show ?case by simp
next
  case (Cons x xs)
  then have "1 \<le> x" and "1 \<le> prod_list xs" by simp_all
  then have "1 * 1 \<le> x * prod_list xs" by (intro mult_mono) simp_all
  then show ?case by simp
qed

lemma prefix_prod_le:
  assumes "\<forall>x\<in>set xs. (1::int) \<le> x"
  shows "prod_list (take k xs) \<le> prod_list xs"
proof -
  have t: "1 \<le> prod_list (take k xs)"
    using assms by (intro prod_list_ge1) (auto dest: in_set_takeD)
  have d: "1 \<le> prod_list (drop k xs)"
    using assms by (intro prod_list_ge1) (auto dest: in_set_dropD)
  have "prod_list xs = prod_list (take k xs) * prod_list (drop k xs)"
    by (metis append_take_drop_id prod_list.append)
  moreover have "prod_list (take k xs) * 1 \<le> prod_list (take k xs) * prod_list (drop k xs)"
    using t d by (intro mult_left_mono) simp_all
  ultimately show ?thesis by simp
qed

lemma reshape_returns:
  assumes "length shp \<le> 32" and "\<forall>x\<in>set shp. 1 \<le> x" and "prod_list shp \<le> INT_MAX"
  shows "reshape t shp =
           Inr (prod_list shp > capacity_' t,
                t\<lparr>count_' := prod_list shp, shape_' := shp,
                  capacity_' := max (capacity_' t) (prod_list shp)\<rparr>)"
proof (rule reshape_result [OF assms(1)])
  show "\<forall>x\<in>set shp. 0 \<le> x" using assms(2) by fastforce
  show "\<forall>k\<le>length shp. prod_list (take k shp) \<le> INT_MAX"
    using prefix_prod_le [OF assms(2)] assms(3) by (meson order_trans)
qed

lemma reshape4_returns:
  assumes "ctype_' t = BSHD \<or> ctype_' t = BHDS \<or> ctype_' t = SBHD"
    and "1 \<le> b" "1 \<le> h" "1 \<le> s" "1 \<le> d" and "b * h * s * d \<le> INT_MAX"
  shows "\<exists>r t'. reshape4 t b h s d = Inr (r, t') \<and> well_shaped t'"
proof -
  have p: "b * s * h * d \<le> INT_MAX" "b * h * d * s \<le> INT_MAX" "s * b * h * d \<le> INT_MAX"
    using assms(6) by (simp_all add: mult_ac)
  from assms(1) show ?thesis
  proof (elim disjE)
    assume tag: "ctype_' t = BSHD"
    have "reshape t [b, s, h, d] = Inr (prod_list [b, s, h, d] > capacity_' t,
            t\<lparr>count_' := prod_list [b, s, h, d], shape_' := [b, s, h, d],
              capacity_' := max (capacity_' t) (prod_list [b, s, h, d])\<rparr>)"
      using assms(2-5) p(1) by (intro reshape_returns) (simp_all add: mult.assoc)
    then show ?thesis
      using tag assms(2-5) p(1) by (simp add: reshape4_def well_shaped_def mult.assoc)
  next
    assume tag: "ctype_' t = BHDS"
    have "reshape t [b, h, d, s] = Inr (prod_list [b, h, d, s] > capacity_' t,
            t\<lparr>count_' := prod_list [b, h, d, s], shape_' := [b, h, d, s],
              capacity_' := max (capacity_' t) (prod_list [b, h, d, s])\<rparr>)"
      using assms(2-5) p(2) by (intro reshape_returns) (simp_all add: mult.assoc)
    then show ?thesis
      using tag assms(2-5) p(2) by (simp add: reshape4_def well_shaped_def mult.assoc)
  next
    assume tag: "ctype_' t = SBHD"
    have "reshape t [s, b, h, d] = Inr (prod_list [s, b, h, d] > capacity_' t,
            t\<lparr>count_' := prod_list [s, b, h, d], shape_' := [s, b, h, d],
              capacity_' := max (capacity_' t) (prod_list [s, b, h, d])\<rparr>)"
      using assms(2-5) p(3) by (intro reshape_returns) (simp_all add: mult.assoc)
    then show ?thesis
      using tag assms(2-5) p(3) by (simp add: reshape4_def well_shaped_def mult.assoc)
  qed
qed

lemma well_shaped_extents:
  assumes "well_shaped t"
  shows "\<exists>b h s d. batch t = Inr b \<and> head t = Inr h \<and> sequence t = Inr s
           \<and> dimension t = Inr d \<and> 1 \<le> b \<and> 1 \<le> h \<and> 1 \<le> s \<and> 1 \<le> d
           \<and> b * h * s * d \<le> INT_MAX"
proof -
  have len: "length (shape_' t) = 4" using assms by (simp add: well_shaped_def)
  note r4 = legacyShape_rank4 [OF len]
  have ge: "1 \<le> shape_' t ! 0" "1 \<le> shape_' t ! 1" "1 \<le> shape_' t ! 2" "1 \<le> shape_' t ! 3"
    using assms len by (simp_all add: well_shaped_def)
  have "prod_list [shape_' t ! 0, shape_' t ! 1, shape_' t ! 2, shape_' t ! 3] \<le> INT_MAX"
    using assms list4 [OF len] by (simp add: well_shaped_def)
  then have p: "shape_' t ! 0 * shape_' t ! 1 * shape_' t ! 2 * shape_' t ! 3 \<le> INT_MAX"
    by (simp add: mult.assoc)
  have "ctype_' t = BSHD \<or> ctype_' t = BHDS \<or> ctype_' t = SBHD"
    using assms by (simp add: well_shaped_def)
  then show ?thesis
    using ge p
    by (elim disjE) (simp_all add: batch_def head_def sequence_def dimension_def r4 mult_ac)
qed

lemma well_shaped_cong:
  "shape_' t' = shape_' t \<Longrightarrow> ctype_' t' = ctype_' t \<Longrightarrow> well_shaped t' = well_shaped t"
  by (simp add: well_shaped_def)

lemma deepCopyFrom_tags_returns:
  assumes "st this = Some C" and "st (master_tensor_' C) = Some M"
    and "well_shaped C" and "well_shaped M"
  shows "\<exists>st2. deepCopyFrom_tags st this = Inr st2"
proof -
  from well_shaped_extents [OF assms(3)] obtain b h s d where
    c: "batch C = Inr b" "head C = Inr h" "sequence C = Inr s" "dimension C = Inr d"
      "1 \<le> b" "1 \<le> h" "1 \<le> s" "1 \<le> d" "b * h * s * d \<le> INT_MAX"
    by blast
  from well_shaped_extents [OF assms(4)] obtain mb mh ms md where
    m: "batch M = Inr mb" "head M = Inr mh" "sequence M = Inr ms" "dimension M = Inr md"
      "1 \<le> mb" "1 \<le> mh" "1 \<le> ms" "1 \<le> md" "mb * mh * ms * md \<le> INT_MAX"
    by blast
  have tc: "ctype_' C = BSHD \<or> ctype_' C = BHDS \<or> ctype_' C = SBHD"
    and tm: "ctype_' M = BSHD \<or> ctype_' M = BHDS \<or> ctype_' M = SBHD"
    using assms(3,4) by (simp_all add: well_shaped_def)
  have "ctype_' (M\<lparr>ctype_' := ctype_' C\<rparr>) = BSHD \<or> ctype_' (M\<lparr>ctype_' := ctype_' C\<rparr>) = BHDS
        \<or> ctype_' (M\<lparr>ctype_' := ctype_' C\<rparr>) = SBHD"
    using tc by simp
  from reshape4_returns [OF this m(5-9)]
  obtain r1 M' where rm: "reshape4 (M\<lparr>ctype_' := ctype_' C\<rparr>) mb mh ms md = Inr (r1, M')"
    by blast
  have "ctype_' (C\<lparr>ctype_' := ctype_' M\<rparr>) = BSHD \<or> ctype_' (C\<lparr>ctype_' := ctype_' M\<rparr>) = BHDS
        \<or> ctype_' (C\<lparr>ctype_' := ctype_' M\<rparr>) = SBHD"
    using tm by simp
  from reshape4_returns [OF this c(5-9)]
  obtain r2 C' where rc: "reshape4 (C\<lparr>ctype_' := ctype_' M\<rparr>) b h s d = Inr (r2, C')"
    by blast
  show ?thesis
    using assms(1,2) c(1-4) m(1-4) rm rc by (simp add: deepCopyFrom_tags_def)
qed

lemma deepCopyFrom_window_returns:
  assumes "st this = Some C" and "st source = Some M" and "this \<noteq> source"
    and "well_shaped M"
  shows "\<exists>st4. deepCopyFrom_window st this source shape_offset head_rep = Inr st4"
proof -
  from well_shaped_extents [OF assms(4)] obtain mb mh ms md where
    m: "batch M = Inr mb" "head M = Inr mh" "sequence M = Inr ms" "dimension M = Inr md"
      "1 \<le> mb" "1 \<le> mh" "1 \<le> ms" "1 \<le> md" "mb * mh * ms * md \<le> INT_MAX"
    by blast
  have "1 * 1 \<le> mb * ms" using m(5,7) by (intro mult_mono) simp_all
  then have "1 * (md * mh) \<le> (mb * ms) * (md * mh)"
    using m(6,8) by (intro mult_right_mono) simp_all
  then have le: "md * mh \<le> INT_MAX" using m(9) by (simp add: mult_ac)
  have "0 \<le> md * mh" using m(6,8) by simp
  then have mul: "mul_int md mh = Inr (md * mh)"
    using le by (intro mul_int_in_range) (simp_all add: INT_MIN_def)
  have lo: "md * mh \<noteq> INT_MIN" using \<open>0 \<le> md * mh\<close> by (simp add: INT_MIN_def)
  let ?c = "C\<lparr>shape_offset_' := shape_offset, shape_master_' := [mb, mh, ms, md]\<rparr>"
  obtain ch where ch: "head ?c = Inr ch"
    by (cases "head ?c")
       (auto simp add: head_def legacyShape_def shape_def at_def canonicalAxisIndex_def
          numAxes_def split: ChlType.splits if_splits)
  show ?thesis
    using assms(1-3) m(1-4) ch mul lo
    by (simp add: deepCopyFrom_window_def Let_def div_int_def)
qed


lemma deepCopyFrom_bound_returns:
  assumes "st this = Some C" and "st source = Some M" and "this \<noteq> source"
    and "well_shaped C" and "well_shaped M"
  shows "\<exists>st4 C4 M4. deepCopyFrom_bound st this source copyshape shape_offset head_rep = Inr st4
           \<and> st4 this = Some C4 \<and> st4 source = Some M4
           \<and> well_shaped M4 \<and> (\<not> (copyshape \<and> shape_offset = []) \<longrightarrow> well_shaped C4)"
proof -
  let ?C1 = "C\<lparr>master_tensor_' := source\<rparr>"
  let ?st1 = "st(this \<mapsto> ?C1)"
  let ?cs = "if shape_offset \<noteq> [] then False else copyshape"
  have p1: "?st1 this = Some ?C1" "?st1 (master_tensor_' ?C1) = Some M" "?st1 source = Some M"
    using assms(2,3) by simp_all
  have w1: "well_shaped ?C1" using assms(4) by (simp add: well_shaped_def)
  from deepCopyFrom_tags_returns [OF p1(1,2) w1 assms(5)]
  obtain st2 where t: "deepCopyFrom_tags ?st1 this = Inr st2" by blast
  from deepCopyFrom_tags_defined [OF p1(1,3) t]
  obtain C2 M2 where c2: "st2 this = Some C2" and m2: "st2 source = Some M2" by blast
  have inv: "well_shaped M2 \<and> well_shaped C2"
  proof -
    consider
      (none) "\<not> (ctype_' ?C1 \<noteq> BCTHW \<and> ctype_' ?C1 \<noteq> BTHWC \<and> ctype_' ?C1 \<noteq> ctype_' M
                 \<and> \<not> undiffusion_' ?C1)"
      | (master) "ctype_' ?C1 \<noteq> BCTHW \<and> ctype_' ?C1 \<noteq> BTHWC \<and> ctype_' ?C1 \<noteq> ctype_' M
                 \<and> \<not> undiffusion_' ?C1" "transed_' ?C1"
      | (child) "ctype_' ?C1 \<noteq> BCTHW \<and> ctype_' ?C1 \<noteq> BTHWC \<and> ctype_' ?C1 \<noteq> ctype_' M
                 \<and> \<not> undiffusion_' ?C1" "\<not> transed_' ?C1"
      by blast
    then show ?thesis
    proof cases
      case none
      have "st2 = ?st1" by (rule deepCopyFrom_tags_result(1) [OF p1(1,2) t none])
      then have "C2 = ?C1" "M2 = M" using c2 m2 p1 by simp_all
      then show ?thesis using w1 assms(5) by simp
    next
      case master
      from deepCopyFrom_tags_result(2) [OF p1(1,2) t master]
      obtain b h s d r M3 where
        acc: "batch M = Inr b" "head M = Inr h" "sequence M = Inr s" "dimension M = Inr d"
        and rs: "reshape4 (M\<lparr>ctype_' := ctype_' ?C1\<rparr>) b h s d = Inr (r, M3)"
        and st2: "st2 = ?st1(master_tensor_' ?C1 \<mapsto> M3)"
        by blast
      have st2': "st2 = ?st1(source \<mapsto> M3)" using st2 by simp
      have "st2 this = Some ?C1" and "st2 source = Some M3"
        unfolding st2' using assms(3) by simp_all
      then have eq: "C2 = ?C1" "M2 = M3" using c2 m2 by simp_all
      from well_shaped_extents [OF assms(5)] acc
      have ext: "1 \<le> b" "1 \<le> h" "1 \<le> s" "1 \<le> d" "b * h * s * d \<le> INT_MAX" by auto
      have tag: "ctype_' (M\<lparr>ctype_' := ctype_' ?C1\<rparr>) = BSHD
                 \<or> ctype_' (M\<lparr>ctype_' := ctype_' ?C1\<rparr>) = BHDS
                 \<or> ctype_' (M\<lparr>ctype_' := ctype_' ?C1\<rparr>) = SBHD"
        using w1 by (simp add: well_shaped_def)
      from reshape4_returns [OF tag ext] rs have "well_shaped M3" by auto
      then show ?thesis using eq w1 by simp
    next
      case child
      from deepCopyFrom_tags_result(3) [OF p1(1,2) t child]
      obtain b h s d r C3 where
        acc: "batch ?C1 = Inr b" "head ?C1 = Inr h" "sequence ?C1 = Inr s"
          "dimension ?C1 = Inr d"
        and rs: "reshape4 (?C1\<lparr>ctype_' := ctype_' M\<rparr>) b h s d = Inr (r, C3)"
        and st2: "st2 = ?st1(this \<mapsto> C3)"
        by blast
      have "st2 this = Some C3" and "st2 source = Some M"
        unfolding st2 using assms(2,3) by simp_all
      then have eq: "C2 = C3" "M2 = M" using c2 m2 by simp_all
      from well_shaped_extents [OF w1] acc
      have ext: "1 \<le> b" "1 \<le> h" "1 \<le> s" "1 \<le> d" "b * h * s * d \<le> INT_MAX" by auto
      have tag: "ctype_' (?C1\<lparr>ctype_' := ctype_' M\<rparr>) = BSHD
                 \<or> ctype_' (?C1\<lparr>ctype_' := ctype_' M\<rparr>) = BHDS
                 \<or> ctype_' (?C1\<lparr>ctype_' := ctype_' M\<rparr>) = SBHD"
        using assms(5) by (simp add: well_shaped_def)
      from reshape4_returns [OF tag ext] rs have "well_shaped C3" by auto
      then show ?thesis using eq assms(5) by simp
    qed
  qed
  let ?C3 = "C2\<lparr>host_ptr_' := host_ptr_' M2, capacity_' := capacity_' M2,
               count_' := count_' M2, shape_' := (if ?cs then shape_' M2 else shape_' C2),
               allocated_' := allocated_' M2, dtype_' := dtype_' M2\<rparr>"
  let ?st3 = "st2(this \<mapsto> ?C3)"
  have f: "deepCopyFrom_fields st2 this source ?cs = Inr ?st3"
    by (rule deepCopyFrom_fields_result [OF c2 m2])
  have p3: "?st3 this = Some ?C3" "?st3 source = Some M2"
    using m2 assms(3) by simp_all
  from deepCopyFrom_window_returns [OF p3 assms(3) inv [THEN conjunct1]]
  obtain st4 where w: "deepCopyFrom_window ?st3 this source shape_offset head_rep = Inr st4"
    by blast
  from deepCopyFrom_window_result [OF p3(1) w]
  obtain so sm where st4: "st4 = ?st3(this \<mapsto> ?C3\<lparr>shape_offset_' := so, shape_master_' := sm\<rparr>)"
    by blast
  have b: "deepCopyFrom_bound st this source copyshape shape_offset head_rep = Inr st4"
    using t f w
    by (simp add: deepCopyFrom_bound_def Let_def
        deepCopyFrom_reconciled_unfold [where st = st and this = this and C = C, OF assms(1)])
  have c4: "st4 this = Some (?C3\<lparr>shape_offset_' := so, shape_master_' := sm\<rparr>)"
    using st4 by simp
  have m4: "st4 source = Some M2" using st4 m2 assms(3) by simp
  have w4: "well_shaped (?C3\<lparr>shape_offset_' := so, shape_master_' := sm\<rparr>)"
    if "\<not> (copyshape \<and> shape_offset = [])"
  proof -
    have "well_shaped (?C3\<lparr>shape_offset_' := so, shape_master_' := sm\<rparr>) = well_shaped C2"
      using that by (intro well_shaped_cong) auto
    then show ?thesis using inv by simp
  qed
  show ?thesis using b c4 m4 inv w4 by blast
qed

text \<open>
  A receiver without children makes no pass through the loop: the call is the part
  before the loop, followed by \<open>source->addChildTensor(this)\<close>.
\<close>

lemma deepCopyFrom_leaf:
  assumes "st this = Some C" and "child_tensors_' C = []"
    and "deepCopyFrom_bound st this source copyshape shape_offset head_rep = Inr st4"
  shows "deepCopyFrom (Suc depth) st this source copyshape shape_offset head_rep
           = Some (addChildTensor st4 source this)"
proof -
  from deepCopyFrom_bound_frame(2) [OF assms(3) assms(1)]
  obtain C4 where "st4 this = Some C4" and "child_tensors_' C4 = []"
    using assms(2) by auto
  then show ?thesis using assms(3) by simp
qed

text \<open>
  A child without children of its own and a master, two objects with four positive
  extents each, a 4-axis tag each and a count within \<open>int\<close>: the call returns, at every
  depth bound but 0.
\<close>

lemma deepCopyFrom_returns:
  assumes "st this = Some C" and "st source = Some M" and "this \<noteq> source"
    and "child_tensors_' C = []" and "well_shaped C" and "well_shaped M"
  shows "\<exists>st'. deepCopyFrom (Suc depth) st this source copyshape shape_offset head_rep
                 = Some (Inr st')"
proof -
  from deepCopyFrom_bound_returns [OF assms(1,2,3,5,6)]
  obtain st4 M4 where
    b: "deepCopyFrom_bound st this source copyshape shape_offset head_rep = Inr st4"
    and m4: "st4 source = Some M4"
    by blast
  have "\<exists>st'. addChildTensor st4 source this = Inr st'"
    using m4 by (simp add: addChildTensor_def)
  then show ?thesis
    using deepCopyFrom_leaf [OF assms(1,4) b] by auto
qed

text \<open>A call that returns has got through the part before the loop.\<close>

lemma deepCopyFrom_reaches_loop:
  assumes "deepCopyFrom depth st this source copyshape shape_offset head_rep = Some (Inr st')"
  shows "\<exists>st4. deepCopyFrom_bound st this source copyshape shape_offset head_rep = Inr st4"
  using assms by (cases depth) (auto split: sum.splits)

subsection \<open>The loop at work\<close>

text \<open>
  Three children at the addresses 48, 64 and 80. The first pass erases slot 0 and moves
  the other two down; the second pass finds the third child in slot 1 and erases it; the
  third pass finds the third child again in slot 2, which the vector has given up, and
  erases nothing. The second child is never visited and stays in the vector.
\<close>

lemma std_remove_three_children:
  "std_remove [48, 64, 80] 3 0 = ([64, 80, 80], 2)"
  "std_remove [64, 80, 80] 2 1 = ([64, 80, 80], 1)"
  "std_remove [64, 80, 80] 1 2 = ([64, 80, 80], 1)"
  by (simp_all only: numeral_3_eq_3 numeral_2_eq_2)
     (simp_all add: std_remove_def std_find_def remove_step_def)

text \<open>
  A child of the child is bound to the new master by the nested call, and the nested call
  runs its own reconciliation against the master. Here the child (address 16, tag
  \<open>BHDS\<close>, not transposed) takes the tag \<open>BSHD\<close> of the master, and its own child
  (address 48, tag \<open>BHDS\<close>, transposed) then makes the master take \<open>BHDS\<close>: when the call
  returns, the tags of child and master differ again.
\<close>

lemma deepCopyFrom_nested_call_retags:
  "deepCopyFrom 2
     (three_tensors (bhds_child\<lparr>child_tensors_' := [48]\<rparr>) transposed_child bshd_master)
     16 32 True [] 1 =
     Some (Inr (three_tensors
       (bhds_child\<lparr>ctype_' := BSHD, shape_' := [1, 2, 3, 4], master_tensor_' := 32,
                   host_ptr_' := 4096, allocated_' := 1\<rparr>)
       (transposed_child\<lparr>master_tensor_' := 32, host_ptr_' := 4096, allocated_' := 1\<rparr>)
       (bshd_master\<lparr>ctype_' := BHDS, shape_' := [1, 3, 4, 2],
                    child_tensors_' := [48, 16]\<rparr>)))"
  apply (simp only: numeral_2_eq_2)
  apply (simp add: three_tensors_def bhds_child_def transposed_child_def bshd_master_def
      exec_defs loop_defs fun_eq_iff)
  done

subsection \<open>Receivers with children\<close>

text \<open>
  A receiver whose children have no children of their own: every pass of the loop binds
  the child it finds in its slot to the master, and the call returns at every depth bound
  from 2 on. The tensors are well shaped, and neither the receiver nor the master is
  among the children.
\<close>

lemma children_loop_returns:
  assumes "set buf \<subseteq> R" and "i + k \<le> length buf" and "sz \<le> length buf"
    and "this \<notin> R" and "source \<notin> R" and "this \<noteq> source"
    and "st this = Some T" and "child_tensors_' T = take sz buf"
    and "st source = Some M" and "well_shaped M"
    and "\<forall>c\<in>R. \<exists>t. st c = Some t \<and> well_shaped t \<and> child_tensors_' t = []"
  shows "\<exists>st' M'. children_loop
                     (\<lambda>st' child_tensor.
                         deepCopyFrom (Suc depth) st' child_tensor source False shape_offset
                           head_rep)
                     this k buf sz i st = Some (Inr st')
                 \<and> st' source = Some M'"
  using assms
proof (induction k arbitrary: buf sz i st T M)
  case 0
  then show ?case by simp
next
  case (Suc k)
  let ?call = "\<lambda>st' child_tensor.
                 deepCopyFrom (Suc depth) st' child_tensor source False shape_offset head_rep"
  let ?c = "buf ! i"
  have "i < length buf" using Suc.prems(2) by simp
  then have cR: "?c \<in> R" using Suc.prems(1) by auto
  then obtain t where t: "st ?c = Some t" "well_shaped t" "child_tensors_' t = []"
    using Suc.prems(11) by blast
  have cs: "?c \<noteq> source" and ct: "?c \<noteq> this" using cR Suc.prems(4,5) by auto
  from deepCopyFrom_bound_returns [OF t(1) Suc.prems(9) cs t(2) Suc.prems(10),
      where copyshape = False and shape_offset = shape_offset and head_rep = head_rep]
  obtain st4 C4 M4 where
    b: "deepCopyFrom_bound st ?c source False shape_offset head_rep = Inr st4"
    and c4: "st4 ?c = Some C4" and m4: "st4 source = Some M4"
    and w4: "well_shaped M4" "well_shaped C4"
    by auto
  let ?M1 = "M4\<lparr>child_tensors_' := child_tensors_' M4 @ [?c]\<rparr>"
  let ?st1 = "st4(source \<mapsto> ?M1)"
  have a: "addChildTensor st4 source ?c = Inr ?st1"
    using m4 by (simp add: addChildTensor_def)
  have c1: "?call st ?c = Some (Inr ?st1)"
    using deepCopyFrom_leaf [OF t(1,3) b, where depth = depth] a by simp
  note fr = deepCopyFrom_bound_frame [OF b]
  have this1: "?st1 this = Some T"
    using fr(1) [of this] ct Suc.prems(6,7) by simp
  obtain buf' sz' where rm: "std_remove buf sz i = (buf', sz')"
    by (cases "std_remove buf sz i")
  note rb = std_remove_buffer [OF rm Suc.prems(3)]
  let ?T2 = "T\<lparr>child_tensors_' := take sz' buf'\<rparr>"
  let ?st2 = "?st1(this \<mapsto> ?T2)"
  have step: "children_loop ?call this (Suc k) buf sz i st
                = children_loop ?call this k buf' sz' (Suc i) ?st2"
    using c1 this1 Suc.prems(8) rm by simp
  have leaf4: "child_tensors_' C4 = []"
    using fr(2) [OF t(1)] c4 t(3) by simp
  have inv: "\<forall>c\<in>R. \<exists>t. ?st2 c = Some t \<and> well_shaped t \<and> child_tensors_' t = []"
  proof
    fix q assume q: "q \<in> R"
    then have ne: "q \<noteq> this" "q \<noteq> source" using Suc.prems(4,5) by auto
    show "\<exists>t. ?st2 q = Some t \<and> well_shaped t \<and> child_tensors_' t = []"
    proof (cases "q = ?c")
      case True
      then show ?thesis using ne c4 w4(2) leaf4 by simp
    next
      case False
      then have "st4 q = st q" using fr(1) [of q] ne by simp
      then show ?thesis using ne q Suc.prems(11) by simp
    qed
  qed
  have p: "set buf' \<subseteq> R" "Suc i + k \<le> length buf'" "sz' \<le> length buf'"
    using rb Suc.prems(1,2,3) by auto
  have w1: "well_shaped ?M1" using w4(1) by (simp add: well_shaped_def)
  have "\<exists>st' M'. children_loop ?call this k buf' sz' (Suc i) ?st2 = Some (Inr st')
                 \<and> st' source = Some M'"
    by (rule Suc.IH [OF p Suc.prems(4,5,6) _ _ _ w1 inv, where T = ?T2])
       (use Suc.prems(6) in simp_all)
  then show ?case unfolding step .
qed

lemma deepCopyFrom_returns_with_children:
  assumes "st this = Some C" and "st source = Some M" and "this \<noteq> source"
    and "this \<notin> set (child_tensors_' C)" and "source \<notin> set (child_tensors_' C)"
    and "\<forall>c\<in>set (child_tensors_' C).
           \<exists>t. st c = Some t \<and> well_shaped t \<and> child_tensors_' t = []"
    and "well_shaped C" and "well_shaped M"
  shows "\<exists>st'. deepCopyFrom (Suc (Suc depth)) st this source copyshape shape_offset head_rep
                 = Some (Inr st')"
proof -
  let ?call = "\<lambda>st' child_tensor.
                 deepCopyFrom (Suc depth) st' child_tensor source False shape_offset head_rep"
  let ?R = "set (child_tensors_' C)"
  from deepCopyFrom_bound_returns [OF assms(1,2,3,7,8)]
  obtain st4 C4 M4 where
    b: "deepCopyFrom_bound st this source copyshape shape_offset head_rep = Inr st4"
    and c4: "st4 this = Some C4" and m4: "st4 source = Some M4" and w4: "well_shaped M4"
    by blast
  note fr = deepCopyFrom_bound_frame [OF b]
  have ch: "child_tensors_' C4 = child_tensors_' C"
    using fr(2) [OF assms(1)] c4 by simp
  have inv: "\<forall>c\<in>?R. \<exists>t. st4 c = Some t \<and> well_shaped t \<and> child_tensors_' t = []"
  proof
    fix q assume q: "q \<in> ?R"
    then have "q \<noteq> this" "q \<noteq> source" using assms(4,5) by auto
    then have "st4 q = st q" using fr(1) [of q] by simp
    then show "\<exists>t. st4 q = Some t \<and> well_shaped t \<and> child_tensors_' t = []"
      using q assms(6) by simp
  qed
  have "\<exists>st' M'. children_loop ?call this (length (child_tensors_' C)) (child_tensors_' C)
                     (length (child_tensors_' C)) 0 st4 = Some (Inr st')
                 \<and> st' source = Some M'"
    by (rule children_loop_returns [OF _ _ _ assms(4,5,3) c4 _ m4 w4 inv])
       (simp_all add: ch)
  then obtain st5 M5 where
    l: "children_loop ?call this (length (child_tensors_' C)) (child_tensors_' C)
          (length (child_tensors_' C)) 0 st4 = Some (Inr st5)"
    and m5: "st5 source = Some M5"
    by blast
  have "\<exists>st'. addChildTensor st5 source this = Inr st'"
    using m5 by (simp add: addChildTensor_def)
  then show ?thesis using b c4 ch l by auto
qed

end
